theory Spec2Isabelle
  imports Main "HOL-Library.Word"
begin

unbundle bit_operations_syntax

section \<open>Values of the program\<close>

text \<open>
  The program is a Python script that keeps a flat file of fixed-width binary records.
  A \<^verbatim>\<open>bytes\<close> object is a list of 8-bit words. A \<^verbatim>\<open>str\<close> is a list of code points
  (natural numbers); a \<^verbatim>\<open>float\<close> is an IEEE-754 binary64 value, kept as its 64-bit
  pattern; an \<^verbatim>\<open>int\<close> is unbounded. A database record is the 4-tuple
  \<^verbatim>\<open>(name, count, price, category)\<close> that \<^verbatim>\<open>unpack_record\<close> returns.
\<close>

type_synonym byte = "8 word"
type_synonym pystr = "nat list"
type_synonym pyfloat = "64 word"
type_synonym db_record = "pystr \<times> int \<times> pyfloat \<times> pystr"

datatype py_exn = UnicodeEncodeError | StructError

definition str_of :: "string \<Rightarrow> pystr" where
  "str_of s = map (of_char :: char \<Rightarrow> nat) s"

section \<open>UTF-8\<close>

text \<open>
  \<^verbatim>\<open>s.encode("utf-8")\<close>: one to four bytes per code point; a surrogate
  (U+D800..U+DFFF) raises \<^verbatim>\<open>UnicodeEncodeError\<close>. Numbers from 0x110000 on are no
  code points of a \<^verbatim>\<open>str\<close>; the encoder rejects them as well. The arithmetic is done
  on natural numbers (byte values), the result converted to bytes at the end.
\<close>

definition utf8_char :: "nat \<Rightarrow> nat list option" where
  "utf8_char c =
    (if c < 0x80 then Some [c]
     else if c < 0x800 then Some [0xC0 + c div 64, 0x80 + c mod 64]
     else if c < 0x10000 then
       (if 0xD800 \<le> c \<and> c < 0xE000 then None
        else Some [0xE0 + c div 4096, 0x80 + c div 64 mod 64, 0x80 + c mod 64])
     else if c < 0x110000 then
       Some [0xF0 + c div 262144, 0x80 + c div 4096 mod 64, 0x80 + c div 64 mod 64,
             0x80 + c mod 64]
     else None)"

fun utf8_nat :: "pystr \<Rightarrow> nat list option" where
  "utf8_nat [] = Some []"
| "utf8_nat (c # cs) =
    (case utf8_char c of None \<Rightarrow> None
     | Some bs \<Rightarrow> (case utf8_nat cs of None \<Rightarrow> None | Some rest \<Rightarrow> Some (bs @ rest)))"

definition encode_utf8 :: "pystr \<Rightarrow> py_exn + byte list" where
  "encode_utf8 s =
    (case utf8_nat s of None \<Rightarrow> Inl UnicodeEncodeError
     | Some bs \<Rightarrow> Inr (map of_nat bs))"

text \<open>
  \<^verbatim>\<open>b.decode("utf-8", errors="ignore")\<close>, as CPython's decoder does it: a byte that
  cannot start a sequence is dropped; a sequence broken by a byte that cannot continue
  it loses the bytes read so far and decoding resumes at the offending byte; a sequence
  cut off by the end of the data is dropped. Overlong forms, surrogates and values above
  U+10FFFF are rejected at the second byte.
\<close>

definition is_cont :: "nat \<Rightarrow> bool" where
  "is_cont b = (0x80 \<le> b \<and> b < 0xC0)"

fun decode_nat :: "nat list \<Rightarrow> pystr" where
  "decode_nat [] = []"
| "decode_nat (b # bs) =
    (if b < 0x80 then b # decode_nat bs
     else if b < 0xC2 then decode_nat bs
     else if b < 0xE0 then
       (case bs of [] \<Rightarrow> []
        | b1 # r1 \<Rightarrow>
            if is_cont b1 then ((b - 0xC0) * 64 + (b1 - 0x80)) # decode_nat r1
            else decode_nat bs)
     else if b < 0xF0 then
       (case bs of [] \<Rightarrow> []
        | b1 # r1 \<Rightarrow>
            if \<not> is_cont b1 \<or> (b = 0xE0 \<and> b1 < 0xA0) \<or> (b = 0xED \<and> 0xA0 \<le> b1)
            then decode_nat bs
            else (case r1 of [] \<Rightarrow> []
                  | b2 # r2 \<Rightarrow>
                      if is_cont b2
                      then ((b - 0xE0) * 4096 + (b1 - 0x80) * 64 + (b2 - 0x80)) # decode_nat r2
                      else decode_nat r1))
     else if b < 0xF5 then
       (case bs of [] \<Rightarrow> []
        | b1 # r1 \<Rightarrow>
            if \<not> is_cont b1 \<or> (b = 0xF0 \<and> b1 < 0x90) \<or> (b = 0xF4 \<and> 0x90 \<le> b1)
            then decode_nat bs
            else (case r1 of [] \<Rightarrow> []
                  | b2 # r2 \<Rightarrow>
                      if \<not> is_cont b2 then decode_nat r1
                      else (case r2 of [] \<Rightarrow> []
                            | b3 # r3 \<Rightarrow>
                                if is_cont b3
                                then ((b - 0xF0) * 262144 + (b1 - 0x80) * 4096
                                      + (b2 - 0x80) * 64 + (b3 - 0x80)) # decode_nat r3
                                else decode_nat r2)))
     else decode_nat bs)"

definition decode_utf8_ignore :: "byte list \<Rightarrow> pystr" where
  "decode_utf8_ignore bs = decode_nat (map unat bs)"

text \<open>\<^verbatim>\<open>s.rstrip("\x00")\<close> and \<^verbatim>\<open>b[:k].ljust(k, b"\x00")\<close>.\<close>

definition rstrip_nul :: "pystr \<Rightarrow> pystr" where
  "rstrip_nul s = rev (dropWhile (\<lambda>c. c = 0) (rev s))"

definition ljust :: "nat \<Rightarrow> byte list \<Rightarrow> byte list" where
  "ljust k bs = bs @ replicate (k - length bs) 0"

section \<open>Fixed-width numbers\<close>

text \<open>
  The format string has no byte-order prefix, so \<^verbatim>\<open>struct\<close> uses the platform's
  native order and alignment. The model fixes a little-endian platform, where
  \<^verbatim>\<open>i\<close> is a 4-byte two's complement integer and \<^verbatim>\<open>f\<close> an IEEE-754 binary32.
\<close>

definition le32 :: "nat \<Rightarrow> byte list" where
  "le32 n = [of_nat n, of_nat (n div 256), of_nat (n div 65536), of_nat (n div 16777216)]"

definition of_le :: "byte list \<Rightarrow> nat" where
  "of_le bs = foldr (\<lambda>b acc. unat b + 256 * acc) bs 0"

text \<open>\<^verbatim>\<open>struct.pack("i", n)\<close> raises \<^verbatim>\<open>struct.error\<close> outside the 32-bit range.\<close>

definition pack_i :: "int \<Rightarrow> py_exn + byte list" where
  "pack_i n =
    (if - 2147483648 \<le> n \<and> n \<le> 2147483647 then Inr (le32 (nat (n mod 4294967296)))
     else Inl StructError)"

definition unpack_i :: "byte list \<Rightarrow> int" where
  "unpack_i bs =
    (let u = of_le bs in if u < 2147483648 then int u else int u - 4294967296)"

text \<open>
  Rounding a quotient \<open>n / 2 ^ k\<close> to the nearest integer, ties to the even one: the
  rounding of the C conversion from double to float.
\<close>

definition round_shift :: "nat \<Rightarrow> nat \<Rightarrow> nat" where
  "round_shift n k =
    (let q = n div 2 ^ k; r = n mod 2 ^ k
     in if 2 * r > 2 ^ k \<or> (2 * r = 2 ^ k \<and> odd q) then q + 1 else q)"

text \<open>
  \<^verbatim>\<open>struct.pack("f", x)\<close> in native mode is the C cast of the double to \<^verbatim>\<open>float\<close>:
  the value is rounded to binary32 (to nearest, ties to even); a double beyond the
  binary32 range becomes an infinity, and nothing is raised. An infinity stays one; a
  NaN keeps its sign and the upper 22 payload bits and comes out quiet. The function
  works on the bit patterns as natural numbers.
\<close>

definition f64_to_f32 :: "nat \<Rightarrow> nat" where
  "f64_to_f32 x =
    (let s = x div 2 ^ 63; e = x div 2 ^ 52 mod 2048; m = x mod 2 ^ 52
     in if e = 2047 then
          (if m = 0 then s * 2 ^ 31 + 0x7F800000
           else s * 2 ^ 31 + 0x7FC00000 + m div 2 ^ 29 mod 2 ^ 22)
        else
          (let full = (if e = 0 then m else 2 ^ 52 + m);
               e1 = (if e = 0 then 1 else e);
               bits = (if e1 \<le> 896 then round_shift full (926 - e1)
                       else (e1 - 897) * 2 ^ 23 + round_shift full 29)
           in if bits < 0x7F800000 then s * 2 ^ 31 + bits else s * 2 ^ 31 + 0x7F800000))"

text \<open>
  \<^verbatim>\<open>struct.unpack("f", b)\<close>: the binary32 value widened to a double, exactly. A
  subnormal binary32 is a normal double; a NaN comes out quiet.
\<close>

fun top_bit :: "nat \<Rightarrow> nat" where
  "top_bit m = (if m < 2 then 0 else Suc (top_bit (m div 2)))"

declare top_bit.simps [simp del]

definition f32_to_f64 :: "nat \<Rightarrow> nat" where
  "f32_to_f64 x =
    (let s = x div 2 ^ 31; e = x div 2 ^ 23 mod 256; m = x mod 2 ^ 23
     in if e = 255 then
          (if m = 0 then s * 2 ^ 63 + 2047 * 2 ^ 52
           else s * 2 ^ 63 + 2047 * 2 ^ 52 + 2 ^ 51 + (m mod 2 ^ 22) * 2 ^ 29)
        else if e = 0 then
          (if m = 0 then s * 2 ^ 63
           else (let k = top_bit m
                 in s * 2 ^ 63 + (k + 874) * 2 ^ 52 + (m * 2 ^ (52 - k) - 2 ^ 52)))
        else s * 2 ^ 63 + (e + 896) * 2 ^ 52 + m * 2 ^ 29)"

definition pack_f :: "pyfloat \<Rightarrow> byte list" where
  "pack_f x = le32 (f64_to_f32 (unat x))"

definition unpack_f :: "byte list \<Rightarrow> pyfloat" where
  "unpack_f bs = of_nat (f32_to_f64 (of_le bs))"

section \<open>The record codec\<close>

text \<open>
  \<^verbatim>\<open>FORMAT = "20s i f 15s"\<close> and \<^verbatim>\<open>RECORD_SIZE = struct.calcsize(FORMAT)\<close>. In
  native mode every item is aligned to its own size; no padding follows the last item.
\<close>

datatype fmt_item = Fmt_s nat | Fmt_i | Fmt_f

definition FORMAT :: "fmt_item list" where
  "FORMAT = [Fmt_s 20, Fmt_i, Fmt_f, Fmt_s 15]"

fun item_size :: "fmt_item \<Rightarrow> nat" where
  "item_size (Fmt_s k) = k"
| "item_size Fmt_i = 4"
| "item_size Fmt_f = 4"

fun item_align :: "fmt_item \<Rightarrow> nat" where
  "item_align (Fmt_s k) = 1"
| "item_align Fmt_i = 4"
| "item_align Fmt_f = 4"

definition align_up :: "nat \<Rightarrow> nat \<Rightarrow> nat" where
  "align_up off a = ((off + a - 1) div a) * a"

definition calcsize :: "fmt_item list \<Rightarrow> nat" where
  "calcsize fmt = fold (\<lambda>it off. align_up off (item_align it) + item_size it) fmt 0"

definition RECORD_SIZE :: nat where
  "RECORD_SIZE = calcsize FORMAT"

text \<open>
  \<^verbatim>\<open>pack_record\<close>: the arguments are evaluated first (both \<^verbatim>\<open>encode\<close> calls can raise),
  then \<^verbatim>\<open>struct.pack\<close> converts the items from left to right; the integer can be out of
  range, the float cannot fail. The integer and the float start at offsets 20 and 24,
  both multiples of 4, so no pad byte is written.
\<close>

definition pack_record :: "pystr \<Rightarrow> int \<Rightarrow> pyfloat \<Rightarrow> pystr \<Rightarrow> py_exn + byte list" where
  "pack_record name count price category =
    (case encode_utf8 name of Inl e \<Rightarrow> Inl e
     | Inr nb \<Rightarrow>
    (case encode_utf8 category of Inl e \<Rightarrow> Inl e
     | Inr cb \<Rightarrow>
    (case pack_i count of Inl e \<Rightarrow> Inl e
     | Inr ib \<Rightarrow> Inr (ljust 20 (take 20 nb) @ ib @ pack_f price @ ljust 15 (take 15 cb)))))"

text \<open>
  \<^verbatim>\<open>unpack_record\<close>: \<^verbatim>\<open>struct.unpack\<close> raises unless the block has the exact size;
  \<open>decode_fields\<close> is what the function returns for a block of that size.
\<close>

definition decode_fields :: "byte list \<Rightarrow> db_record" where
  "decode_fields data =
    (rstrip_nul (decode_utf8_ignore (take 20 data)),
     unpack_i (take 4 (drop 20 data)),
     unpack_f (take 4 (drop 24 data)),
     rstrip_nul (decode_utf8_ignore (take 15 (drop 28 data))))"

definition unpack_record :: "byte list \<Rightarrow> py_exn + db_record" where
  "unpack_record data =
    (if length data \<noteq> RECORD_SIZE then Inl StructError else Inr (decode_fields data))"

section \<open>The file and what the program prints\<close>

text \<open>
  The file system is reduced to the one path the functions are given: \<open>None\<close> when
  nothing exists there, otherwise the bytes of the file. Every function returns what it
  printed, as a list of events in order; an exception that leaves the function is the
  last event. The functions that write return the new state of the file as well.

  The events, with the message each stands for:
  \<^item> \<open>FileNotFound\<close>: the file does not exist;
  \<^item> \<open>Header\<close>, \<open>SizeWarning size\<close>: the first line of a listing; the warning that the
    size is no multiple of the record size;
  \<^item> \<open>RecordLine idx r\<close>: the line \<^verbatim>\<open>idx. name, count, price, category\<close>;
  \<^item> \<open>CorruptRecord idx k\<close>: the line for a damaged or incomplete record of \<open>k\<close> bytes;
  \<^item> \<open>BadPosition\<close>: the position is incorrect; \<open>BadPositionRange k\<close>: the same with
    the admissible range \<^verbatim>\<open>1..k\<close>;
  \<^item> \<open>BadFileSize\<close>: the size is no multiple of the record size, operation cancelled;
  \<^item> \<open>EmptyDb\<close>: the database is empty;
  \<^item> \<open>Initialized k\<close>: the file was initialised with \<open>k\<close> records;
  \<^item> \<open>Appended\<close>, \<open>Inserted pos\<close>, \<open>Deleted pos\<close>: the three success messages;
  \<^item> \<open>FieldNotNumber\<close>, \<open>FieldsEqual\<close>, \<open>BadFieldNumber\<close>: a field number that is no
    number, two equal field numbers, a field number outside 1..4;
  \<^item> \<open>EmptyCondition\<close>, \<open>BadOperator\<close>, \<open>NoNumber\<close>, \<open>BadNumber\<close>: the four rejections
    of a comparison condition;
  \<^item> \<open>NoMatches\<close>: no record matched.
\<close>

datatype event =
    FileNotFound
  | Header
  | SizeWarning nat
  | RecordLine nat db_record
  | CorruptRecord nat nat
  | BadPosition
  | BadPositionRange nat
  | BadFileSize
  | EmptyDb
  | Initialized nat
  | Appended
  | Inserted int
  | Deleted int
  | FieldNotNumber
  | FieldsEqual
  | BadFieldNumber
  | EmptyCondition
  | BadOperator
  | NoNumber
  | BadNumber
  | NoMatches
  | Uncaught py_exn

text \<open>The named conditions of the specification, and the messages that report them.\<close>

datatype condition = SizeInconsistency | PositionOutOfRange | EmptyStore | InvalidQuery

fun condition_of :: "event \<Rightarrow> condition option" where
  "condition_of BadFileSize = Some SizeInconsistency"
| "condition_of BadPosition = Some PositionOutOfRange"
| "condition_of (BadPositionRange k) = Some PositionOutOfRange"
| "condition_of EmptyDb = Some EmptyStore"
| "condition_of FieldNotNumber = Some InvalidQuery"
| "condition_of FieldsEqual = Some InvalidQuery"
| "condition_of BadFieldNumber = Some InvalidQuery"
| "condition_of EmptyCondition = Some InvalidQuery"
| "condition_of BadOperator = Some InvalidQuery"
| "condition_of NoNumber = Some InvalidQuery"
| "condition_of BadNumber = Some InvalidQuery"
| "condition_of e = None"

text \<open>
  \<^verbatim>\<open>f.seek(off); f.read(k)\<close> and \<^verbatim>\<open>f.seek(off); f.write(chunk)\<close> on the bytes of the
  file. A write past the end extends the file, filling a gap with zero bytes;
  \<^verbatim>\<open>f.truncate(k)\<close> cuts the file or extends it with zero bytes.
\<close>

definition read_at :: "nat \<Rightarrow> nat \<Rightarrow> byte list \<Rightarrow> byte list" where
  "read_at off k data = take k (drop off data)"

definition write_at :: "nat \<Rightarrow> byte list \<Rightarrow> byte list \<Rightarrow> byte list" where
  "write_at off chunk data =
    take off data @ replicate (off - length data) 0 @ chunk @ drop (off + length chunk) data"

definition truncate :: "nat \<Rightarrow> byte list \<Rightarrow> byte list" where
  "truncate k data = take k data @ replicate (k - length data) 0"

text \<open>
  The reading loop that \<^verbatim>\<open>print_db_from_file\<close> and the three searches share, word for
  word: read \<^verbatim>\<open>RECORD_SIZE\<close> bytes; stop at the end of the file; report a short read and
  stop; otherwise decode the record, print it when it matches, and go on. \<open>rest\<close> is
  what the file holds from the current offset on.
\<close>

function read_loop :: "(db_record \<Rightarrow> bool) \<Rightarrow> nat \<Rightarrow> byte list \<Rightarrow> event list" where
  "read_loop match idx rest =
    (let data = take RECORD_SIZE rest
     in if data = [] then []
        else if length data \<noteq> RECORD_SIZE then [CorruptRecord idx (length data)]
        else (case unpack_record data of
                Inl e \<Rightarrow> [Uncaught e]
              | Inr r \<Rightarrow> (if match r then [RecordLine idx r] else [])
                         @ read_loop match (idx + 1) (drop RECORD_SIZE rest)))"
  by pat_completeness auto
termination
  by (relation "measure (\<lambda>(match, idx, rest). length rest)") auto

declare read_loop.simps [simp del]

definition print_db_from_file :: "byte list option \<Rightarrow> event list" where
  "print_db_from_file file =
    Header #
    (case file of None \<Rightarrow> [FileNotFound]
     | Some bytes \<Rightarrow>
         (if length bytes mod RECORD_SIZE \<noteq> 0 then [SizeWarning (length bytes)] else [])
         @ read_loop (\<lambda>r. True) 1 bytes)"

text \<open>
  \<^verbatim>\<open>generate_record\<close> and \<^verbatim>\<open>init_db_binary\<close>: the file is created or emptied and the
  built-in records are written one after the other. The three prices are the doubles
  3.5, 799.0 and 89999.99.
\<close>

definition generate_record :: "nat \<Rightarrow> db_record option" where
  "generate_record index =
    (if index = 0 then
       Some ([1103, 1073, 1083, 1086, 1082, 1086], 10, 0x400C000000000000,
             [1092, 1088, 1091, 1082, 1090])
     else if index = 1 then
       Some ([1082, 1085, 1080, 1075, 1072], 2, 0x4088F80000000000,
             [1090, 1086, 1074, 1072, 1088])
     else if index = 2 then
       Some ([1085, 1086, 1091, 1090, 1073, 1091, 1082], 1, 0x40F5F8FFD70A3D71,
             [1090, 1077, 1093, 1085, 1080, 1082, 1072])
     else None)"

function init_loop :: "nat \<Rightarrow> nat \<Rightarrow> byte list \<Rightarrow> event list \<times> byte list" where
  "init_loop i count_records written =
    (case generate_record i of
       None \<Rightarrow> ([Initialized count_records], written)
     | Some (name, count, price, category) \<Rightarrow>
         (case pack_record name count price category of
            Inl e \<Rightarrow> ([Uncaught e], written)
          | Inr block \<Rightarrow> init_loop (i + 1) (count_records + 1) (written @ block)))"
  by pat_completeness auto
termination
  by (relation "measure (\<lambda>(i, count_records, written). 3 - i)")
     (auto simp: generate_record_def split: if_splits)

declare init_loop.simps [simp del]

definition init_db_binary :: "byte list option \<Rightarrow> event list \<times> byte list option" where
  "init_db_binary file = (let (evs, written) = init_loop 0 0 [] in (evs, Some written))"

text \<open>
  \<^verbatim>\<open>insert_record_at\<close>. The loop \<^verbatim>\<open>for i in range(n - 1, pos - 2, -1)\<close> runs over
  \<open>n - 1, ..., pos - 1\<close>; with \<open>1 \<le> pos \<le> n\<close> these are the natural numbers of
  \<open>rev [pos - 1..<n]\<close>.
\<close>

definition shift_right :: "nat \<Rightarrow> byte list \<Rightarrow> byte list" where
  "shift_right i data =
    write_at ((i + 1) * RECORD_SIZE) (read_at (i * RECORD_SIZE) RECORD_SIZE data) data"

definition insert_record_at ::
  "byte list option \<Rightarrow> int \<Rightarrow> pystr \<Rightarrow> int \<Rightarrow> pyfloat \<Rightarrow> pystr
    \<Rightarrow> event list \<times> byte list option" where
  "insert_record_at file pos name count price category =
    (case file of None \<Rightarrow> ([FileNotFound], file)
     | Some bytes \<Rightarrow>
         if pos < 1 then ([BadPosition], file)
         else
           let file_size = length bytes; n = file_size div RECORD_SIZE
           in if file_size mod RECORD_SIZE \<noteq> 0 then ([BadFileSize], file)
              else if pos > int n + 1 then ([BadPositionRange (n + 1)], file)
              else (case pack_record name count price category of
                      Inl e \<Rightarrow> ([Uncaught e], file)
                    | Inr new_data \<Rightarrow>
                        if pos = int n + 1
                        then ([Appended], Some (write_at (length bytes) new_data bytes))
                        else ([Inserted pos],
                              Some (write_at ((nat pos - 1) * RECORD_SIZE) new_data
                                     (fold shift_right (rev [nat pos - 1..<n]) bytes)))))"

text \<open>\<^verbatim>\<open>delete_record\<close>, with the loop \<^verbatim>\<open>for i in range(pos, n)\<close>.\<close>

definition shift_left :: "nat \<Rightarrow> byte list \<Rightarrow> byte list" where
  "shift_left i data =
    write_at ((i - 1) * RECORD_SIZE) (read_at (i * RECORD_SIZE) RECORD_SIZE data) data"

definition delete_record :: "byte list option \<Rightarrow> int \<Rightarrow> event list \<times> byte list option" where
  "delete_record file pos =
    (case file of None \<Rightarrow> ([FileNotFound], file)
     | Some bytes \<Rightarrow>
         if pos < 1 then ([BadPosition], file)
         else
           let file_size = length bytes
           in if file_size mod RECORD_SIZE \<noteq> 0 then ([BadFileSize], file)
              else
                let n = file_size div RECORD_SIZE
                in if n = 0 then ([EmptyDb], file)
                   else if pos > int n then ([BadPositionRange n], file)
                   else ([Deleted pos],
                         Some (truncate ((n - 1) * RECORD_SIZE)
                                (fold shift_left [nat pos..<n] bytes))))"

text \<open>The slot of position \<open>i + 1\<close>: the bytes from offset \<open>i * RECORD_SIZE\<close> on.\<close>

definition slot :: "nat \<Rightarrow> byte list \<Rightarrow> byte list" where
  "slot i data = take RECORD_SIZE (drop (i * RECORD_SIZE) data)"

section \<open>Numbers read from text\<close>

text \<open>
  \<^verbatim>\<open>str.strip()\<close> removes the characters for which \<^verbatim>\<open>str.isspace\<close> holds, at both
  ends. The C locale's \<^verbatim>\<open>isspace\<close>, which the number parsers use, knows the six ASCII
  ones only.
\<close>

definition c_isspace :: "nat \<Rightarrow> bool" where
  "c_isspace c = (c = 32 \<or> (9 \<le> c \<and> c \<le> 13))"

definition py_isspace :: "nat \<Rightarrow> bool" where
  "py_isspace c =
    (c_isspace c \<or> (28 \<le> c \<and> c \<le> 31) \<or> c = 0x85 \<or> c = 0xA0 \<or> c = 0x1680
     \<or> (0x2000 \<le> c \<and> c \<le> 0x200A) \<or> c = 0x2028 \<or> c = 0x2029 \<or> c = 0x202F
     \<or> c = 0x205F \<or> c = 0x3000)"

definition strip :: "pystr \<Rightarrow> pystr" where
  "strip s = rev (dropWhile py_isspace (rev (dropWhile py_isspace s)))"

text \<open>
  The decimal digits of Unicode 14 (CPython 3.11) come in runs of ten; the list holds
  the zero of every run.
\<close>

definition digit_zeros :: "nat list" where
  "digit_zeros =
    [48, 1632, 1776, 1984, 2406, 2534, 2662, 2790, 2918, 3046, 3174, 3302, 3430, 3558,
     3664, 3792, 3872, 4160, 4240, 6112, 6160, 6470, 6608, 6784, 6800, 6992, 7088, 7232,
     7248, 42528, 43216, 43264, 43472, 43504, 43600, 44016, 65296, 66720, 68912, 69734,
     69872, 69942, 70096, 70384, 70736, 70864, 71248, 71360, 71472, 71904, 72016, 72784,
     73040, 73120, 92768, 92864, 93008, 120782, 120792, 120802, 120812, 120822, 123200,
     123632, 125264, 130032]"

definition decimal_value :: "nat \<Rightarrow> nat option" where
  "decimal_value c =
    (case filter (\<lambda>z. z \<le> c \<and> c < z + 10) digit_zeros of
       [] \<Rightarrow> None
     | z # zs \<Rightarrow> Some (c - z))"

text \<open>
  Before \<^verbatim>\<open>int\<close> or \<^verbatim>\<open>float\<close> parse a \<^verbatim>\<open>str\<close>, a string that is not pure ASCII is
  rewritten: white space becomes a blank, a decimal digit its ASCII digit, any other
  character from 127 on a question mark, at which the text ends.
\<close>

fun to_ascii :: "pystr \<Rightarrow> pystr" where
  "to_ascii [] = []"
| "to_ascii (c # cs) =
    (if c < 127 then c # to_ascii cs
     else if py_isspace c then 32 # to_ascii cs
     else (case decimal_value c of None \<Rightarrow> [63] | Some d \<Rightarrow> (48 + d) # to_ascii cs))"

definition transform_decimal_and_space :: "pystr \<Rightarrow> pystr" where
  "transform_decimal_and_space s = (if list_all (\<lambda>c. c < 128) s then s else to_ascii s)"

definition is_digit :: "nat \<Rightarrow> bool" where
  "is_digit c = (48 \<le> c \<and> c \<le> 57)"

definition digits_value :: "pystr \<Rightarrow> nat" where
  "digits_value ds = foldl (\<lambda>acc c. 10 * acc + (c - 48)) 0 ds"

text \<open>
  \<^verbatim>\<open>int(s)\<close> in base 10: white space, a sign, digits with single underscores between
  them, white space. CPython 3.11 refuses more than 4300 digits. \<open>None\<close> stands for
  \<^verbatim>\<open>ValueError\<close>.
\<close>

fun int_digits :: "pystr \<Rightarrow> (pystr \<times> pystr) option" where
  "int_digits [] = Some ([], [])"
| "int_digits (c # cs) =
    (if is_digit c then map_option (\<lambda>(ds, rest). (c # ds, rest)) (int_digits cs)
     else if c = 95 then
       (case cs of [] \<Rightarrow> None
        | d # cs' \<Rightarrow> if is_digit d then int_digits cs else None)
     else Some ([], c # cs))"

definition py_int :: "pystr \<Rightarrow> int option" where
  "py_int s =
    (let t = dropWhile c_isspace (transform_decimal_and_space s);
         neg = (case t of [] \<Rightarrow> False | c # cs \<Rightarrow> c = 45);
         t1 = (case t of [] \<Rightarrow> [] | c # cs \<Rightarrow> if c = 45 \<or> c = 43 then cs else t)
     in if (case t1 of [] \<Rightarrow> False | c # cs \<Rightarrow> c = 95) then None
        else (case int_digits t1 of None \<Rightarrow> None
              | Some (ds, rest) \<Rightarrow>
                  if ds = [] \<or> 4300 < length ds \<or> dropWhile c_isspace rest \<noteq> [] then None
                  else Some (if neg then - int (digits_value ds) else int (digits_value ds))))"

text \<open>
  A decimal \<open>N / D\<close> (\<open>N, D > 0\<close>) rounded to the nearest double, ties to even; past the
  largest double the result is infinity. The value is the bit pattern without the sign.
\<close>

definition rat_to_f64 :: "nat \<Rightarrow> nat \<Rightarrow> nat" where
  "rat_to_f64 N D =
    (if N = 0 then 0
     else
       let a = int (top_bit N); b = int (top_bit D);
           l = (if a \<ge> b then (if N \<ge> D * 2 ^ nat (a - b) then a - b else a - b - 1)
                else (if N * 2 ^ nat (b - a) \<ge> D then a - b else a - b - 1));
           t = max (l - 52) (- 1074);
           num = (if t < 0 then N * 2 ^ nat (- t) else N);
           den = (if t < 0 then D else D * 2 ^ nat t);
           q = num div den; r = num mod den;
           q' = (if 2 * r > den \<or> (2 * r = den \<and> odd q) then q + 1 else q);
           bits = nat (t + 1074) * 2 ^ 52 + q'
       in if bits < 2047 * 2 ^ 52 then bits else 2047 * 2 ^ 52)"

text \<open>
  \<^verbatim>\<open>float(s)\<close>: underscores are allowed between digits only and are removed; white space
  is stripped; then comes a decimal number with an optional exponent, or \<^verbatim>\<open>inf\<close>,
  \<^verbatim>\<open>infinity\<close> or \<^verbatim>\<open>nan\<close> in any case, each with an optional sign. \<open>None\<close> stands for
  \<^verbatim>\<open>ValueError\<close>.
\<close>

fun drop_underscores :: "nat \<Rightarrow> pystr \<Rightarrow> pystr option" where
  "drop_underscores prev [] = (if prev = 95 then None else Some [])"
| "drop_underscores prev (c # cs) =
    (if c = 95 then (if is_digit prev then drop_underscores c cs else None)
     else if prev = 95 \<and> \<not> is_digit c then None
     else map_option (Cons c) (drop_underscores c cs))"

definition lower :: "pystr \<Rightarrow> pystr" where
  "lower s = map (\<lambda>c. if 65 \<le> c \<and> c \<le> 90 then c + 32 else c) s"

definition parse_exponent :: "pystr \<Rightarrow> int option" where
  "parse_exponent t =
    (case t of [] \<Rightarrow> Some 0
     | c # cs \<Rightarrow>
         if c = 101 \<or> c = 69 then
           (let neg = (case cs of [] \<Rightarrow> False | d # ds \<Rightarrow> d = 45);
                ds = (case cs of [] \<Rightarrow> [] | d # ds \<Rightarrow> if d = 45 \<or> d = 43 then ds else cs)
            in if ds = [] \<or> \<not> list_all is_digit ds then None
               else Some (if neg then - int (digits_value ds) else int (digits_value ds)))
         else None)"

definition parse_double :: "pystr \<Rightarrow> pyfloat option" where
  "parse_double t =
    (let neg = (case t of [] \<Rightarrow> False | c # cs \<Rightarrow> c = 45);
         sgn = (if neg then 2 ^ 63 else 0);
         t1 = (case t of [] \<Rightarrow> [] | c # cs \<Rightarrow> if c = 45 \<or> c = 43 then cs else t);
         ip = takeWhile is_digit t1; r1 = dropWhile is_digit t1;
         dot = (case r1 of [] \<Rightarrow> False | c # cs \<Rightarrow> c = 46);
         r2 = (if dot then tl r1 else r1);
         fp = (if dot then takeWhile is_digit r2 else []);
         r3 = (if dot then dropWhile is_digit r2 else r2)
     in if ip = [] \<and> fp = [] then
          (if lower t1 = str_of ''inf'' \<or> lower t1 = str_of ''infinity''
           then Some (of_nat (sgn + 2047 * 2 ^ 52))
           else if lower t1 = str_of ''nan'' then Some (of_nat (sgn + 2047 * 2 ^ 52 + 2 ^ 51))
           else None)
        else
          (case parse_exponent r3 of None \<Rightarrow> None
           | Some ex \<Rightarrow>
               let m = digits_value (ip @ fp); e10 = ex - int (length fp)
               in Some (of_nat (sgn + (if e10 < 0 then rat_to_f64 m (10 ^ nat (- e10))
                                       else rat_to_f64 (m * 10 ^ nat e10) 1)))))"

definition py_float :: "pystr \<Rightarrow> pyfloat option" where
  "py_float s =
    (case drop_underscores 0 (transform_decimal_and_space s) of None \<Rightarrow> None
     | Some u \<Rightarrow>
         let v = rev (dropWhile c_isspace (rev (dropWhile c_isspace u)))
         in if v = [] then None else parse_double v)"

text \<open>
  Comparison of two floats: a NaN compares false with everything, the two zeros are
  equal, and otherwise the order is that of sign and magnitude.
\<close>

definition f64_nan :: "pyfloat \<Rightarrow> bool" where
  "f64_nan x = (unat x mod 2 ^ 63 > 2047 * 2 ^ 52)"

definition f64_key :: "pyfloat \<Rightarrow> int" where
  "f64_key x = (if unat x < 2 ^ 63 then int (unat x) else - int (unat x mod 2 ^ 63))"

definition float_eq :: "pyfloat \<Rightarrow> pyfloat \<Rightarrow> bool" where
  "float_eq x y = (\<not> f64_nan x \<and> \<not> f64_nan y \<and> f64_key x = f64_key y)"

definition float_lt :: "pyfloat \<Rightarrow> pyfloat \<Rightarrow> bool" where
  "float_lt x y = (\<not> f64_nan x \<and> \<not> f64_nan y \<and> f64_key x < f64_key y)"

definition float_gt :: "pyfloat \<Rightarrow> pyfloat \<Rightarrow> bool" where
  "float_gt x y = float_lt y x"

section \<open>The searches\<close>

text \<open>
  After its loop a search prints that nothing matched when no record line was printed
  (the flag \<^verbatim>\<open>found\<close>); an exception in the loop would skip that.
\<close>

fun is_record_line :: "event \<Rightarrow> bool" where
  "is_record_line (RecordLine idx r) = True"
| "is_record_line e = False"

fun is_uncaught :: "event \<Rightarrow> bool" where
  "is_uncaught (Uncaught x) = True"
| "is_uncaught e = False"

definition report_found :: "event list \<Rightarrow> event list" where
  "report_found evs =
    (if list_ex is_uncaught evs \<or> list_ex is_record_line evs then evs
     else evs @ [NoMatches])"

text \<open>The comparison of one field with a value given as text, as all searches do it.\<close>

definition field_ok :: "int \<Rightarrow> pystr \<Rightarrow> db_record \<Rightarrow> bool" where
  "field_ok field_num v r =
    (case r of (name, count, price, category) \<Rightarrow>
       if field_num = 1 then name = v
       else if field_num = 2 then (case py_int v of None \<Rightarrow> False | Some k \<Rightarrow> count = k)
       else if field_num = 3 then
         (case py_float v of None \<Rightarrow> False | Some x \<Rightarrow> float_eq price x)
       else category = v)"

definition one_field_search :: "byte list option \<Rightarrow> pystr \<Rightarrow> pystr \<Rightarrow> event list" where
  "one_field_search file field_num v =
    (case file of None \<Rightarrow> [FileNotFound]
     | Some bytes \<Rightarrow>
         if length bytes mod RECORD_SIZE \<noteq> 0 then [BadFileSize]
         else if length bytes div RECORD_SIZE = 0 then [EmptyDb]
         else (case py_int field_num of None \<Rightarrow> [FieldNotNumber]
               | Some fnum \<Rightarrow>
                   if fnum \<notin> {1, 2, 3, 4} then [BadFieldNumber]
                   else report_found (read_loop (field_ok fnum v) 1 bytes)))"

definition two_fields_search ::
  "byte list option \<Rightarrow> pystr \<Rightarrow> pystr \<Rightarrow> pystr \<Rightarrow> pystr \<Rightarrow> event list" where
  "two_fields_search file field1_num value1 field2_num value2 =
    (case file of None \<Rightarrow> [FileNotFound]
     | Some bytes \<Rightarrow>
         (case py_int field1_num of None \<Rightarrow> [FieldNotNumber]
          | Some f1 \<Rightarrow>
         (case py_int field2_num of None \<Rightarrow> [FieldNotNumber]
          | Some f2 \<Rightarrow>
              if f1 = f2 then [FieldsEqual]
              else if f1 \<notin> {1, 2, 3, 4} \<or> f2 \<notin> {1, 2, 3, 4} then [BadFieldNumber]
              else if length bytes mod RECORD_SIZE \<noteq> 0 then [BadFileSize]
              else if length bytes div RECORD_SIZE = 0 then [EmptyDb]
              else report_found
                     (read_loop (\<lambda>r. field_ok f1 value1 r \<and> field_ok f2 value2 r) 1 bytes))))"

text \<open>
  \<^verbatim>\<open>digit_search\<close>: the condition is an operator followed by a number. A number with a
  dot is a float and is compared with the price, any other number is an integer and is
  compared with the count.
\<close>

datatype target = IntTarget int | FloatTarget pyfloat

definition parse_target :: "pystr \<Rightarrow> target option" where
  "parse_target num_str =
    (if 46 \<in> set num_str then map_option FloatTarget (py_float num_str)
     else map_option IntTarget (py_int num_str))"

definition compare_ok :: "nat \<Rightarrow> target \<Rightarrow> db_record \<Rightarrow> bool" where
  "compare_ok op tgt r =
    (case r of (name, count, price, category) \<Rightarrow>
       (case tgt of
          FloatTarget x \<Rightarrow>
            (op = 62 \<and> float_gt price x) \<or> (op = 60 \<and> float_lt price x)
            \<or> (op = 61 \<and> float_eq price x)
        | IntTarget k \<Rightarrow>
            (op = 62 \<and> count > k) \<or> (op = 60 \<and> count < k) \<or> (op = 61 \<and> count = k)))"

definition digit_search :: "byte list option \<Rightarrow> pystr \<Rightarrow> event list" where
  "digit_search file condition =
    (case file of None \<Rightarrow> [FileNotFound]
     | Some bytes \<Rightarrow>
         (case strip condition of [] \<Rightarrow> [EmptyCondition]
          | op # rest \<Rightarrow>
              if op \<notin> {62, 60, 61} then [BadOperator]
              else
                let num_str = strip rest
                in if num_str = [] then [NoNumber]
                   else (case parse_target num_str of None \<Rightarrow> [BadNumber]
                         | Some tgt \<Rightarrow>
                             if length bytes mod RECORD_SIZE \<noteq> 0 then [BadFileSize]
                             else if length bytes div RECORD_SIZE = 0 then [EmptyDb]
                             else report_found (read_loop (compare_ok op tgt) 1 bytes))))"

section \<open>Notions used in the statements\<close>

text \<open>
  What the reading loop prints for the record in slot \<open>i\<close> when it started with the
  index \<open>idx\<close> at the beginning of \<open>data\<close>.
\<close>

definition line_of :: "(db_record \<Rightarrow> bool) \<Rightarrow> nat \<Rightarrow> byte list \<Rightarrow> nat \<Rightarrow> event list" where
  "line_of match idx data i =
    (if match (decode_fields (slot i data))
     then [RecordLine (idx + i) (decode_fields (slot i data))] else [])"

text \<open>The record lines of an output, as pairs of position and record.\<close>

fun lines_of :: "event list \<Rightarrow> (nat \<times> db_record) list" where
  "lines_of [] = []"
| "lines_of (RecordLine idx r # evs) = (idx, r) # lines_of evs"
| "lines_of (e # evs) = lines_of evs"

text \<open>The records that a listing of the file shows, in the order of their positions.\<close>

definition scan_records :: "byte list \<Rightarrow> db_record list" where
  "scan_records bytes = map snd (lines_of (print_db_from_file (Some bytes)))"

text \<open>
  The values \<^verbatim>\<open>pack_record\<close> converts without an exception: text without surrogates
  and a count in the 32-bit range. Every float is converted.
\<close>

definition text_ok :: "pystr \<Rightarrow> bool" where
  "text_ok s = list_all (\<lambda>c. c < 0x110000 \<and> \<not> (0xD800 \<le> c \<and> c < 0xE000)) s"

definition count_ok :: "int \<Rightarrow> bool" where
  "count_ok n = (- 2147483648 \<le> n \<and> n \<le> 2147483647)"

text \<open>
  A text fits a width of \<open>k\<close> bytes when it encodes to at most \<open>k\<close> bytes; it ends
  with NUL when its last character is U+0000.
\<close>

definition fits_text :: "nat \<Rightarrow> pystr \<Rightarrow> bool" where
  "fits_text k s = (case utf8_nat s of None \<Rightarrow> False | Some bs \<Rightarrow> length bs \<le> k)"

definition ends_with_nul :: "pystr \<Rightarrow> bool" where
  "ends_with_nul s = (s \<noteq> [] \<and> last s = 0)"

text \<open>
  The doubles that are binary32 values, read off the exponent field \<open>e\<close> and the
  mantissa field \<open>m\<close> of the double: an infinity; a zero; a double in the normal
  range of binary32 (\<open>2^-126\<close> up to below \<open>2^128\<close>, exponent fields 897 to 1150)
  whose mantissa uses the upper 23 bits only; and a double in the subnormal range of
  binary32 (\<open>2^-149\<close> up to below \<open>2^-126\<close>, exponent fields 874 to 896) that is a
  multiple of \<open>2^-149\<close>. A NaN is none of them.
\<close>

definition is_binary32 :: "pyfloat \<Rightarrow> bool" where
  "is_binary32 x =
    (let e = unat x div 2 ^ 52 mod 2048; m = unat x mod 2 ^ 52
     in (e = 2047 \<and> m = 0) \<or> (e = 0 \<and> m = 0)
        \<or> (897 \<le> e \<and> e \<le> 1150 \<and> m mod 2 ^ 29 = 0)
        \<or> (874 \<le> e \<and> e \<le> 896 \<and> m mod 2 ^ (926 - e) = 0))"

text \<open>
  \<^verbatim>\<open>==\<close> on two record tuples: the texts and the counts are equal and the prices
  compare equal as floats, which a NaN never does.
\<close>

definition record_eq :: "db_record \<Rightarrow> db_record \<Rightarrow> bool" where
  "record_eq r r' =
    (case r of (name, count, price, category) \<Rightarrow>
     (case r' of (name', count', price', category') \<Rightarrow>
        name = name' \<and> count = count' \<and> float_eq price price' \<and> category = category'))"

text \<open>The queries that pass the checks of the two-field and the comparison search.\<close>

definition fields_accepted :: "pystr \<Rightarrow> pystr \<Rightarrow> bool" where
  "fields_accepted field1_num field2_num =
    (case py_int field1_num of None \<Rightarrow> False
     | Some f1 \<Rightarrow>
    (case py_int field2_num of None \<Rightarrow> False
     | Some f2 \<Rightarrow> f1 \<noteq> f2 \<and> f1 \<in> {1, 2, 3, 4} \<and> f2 \<in> {1, 2, 3, 4}))"

definition condition_accepted :: "pystr \<Rightarrow> bool" where
  "condition_accepted condition =
    (case strip condition of [] \<Rightarrow> False
     | op # rest \<Rightarrow> op \<in> {62, 60, 61} \<and> strip rest \<noteq> [] \<and> parse_target (strip rest) \<noteq> None)"

text \<open>
  The store of the end-to-end scenario: the empty file, into which the records
  \<^verbatim>\<open>("apple", 10, 3.5, "fruit")\<close> and \<^verbatim>\<open>("book", 2, 799.0, "goods")\<close> are inserted at the
  positions 1 and 2. (\<^verbatim>\<open>init_db_binary\<close> itself takes no records; it always writes its
  three built-in ones.)
\<close>

definition apple :: db_record where
  "apple = (str_of ''apple'', 10, 0x400C000000000000, str_of ''fruit'')"

definition book :: db_record where
  "book = (str_of ''book'', 2, 0x4088F80000000000, str_of ''goods'')"

definition scenario_store :: "byte list option" where
  "scenario_store =
    snd (insert_record_at
          (snd (insert_record_at (Some []) 1
                  (str_of ''apple'') 10 0x400C000000000000 (str_of ''fruit'')))
          2 (str_of ''book'') 2 0x4088F80000000000 (str_of ''goods''))"

text \<open>The 86 bytes of that store.\<close>

definition scenario_bytes :: "byte list" where
  "scenario_bytes =
     [97, 112, 112, 108, 101, 0, 0, 0, 0, 0, 0, 0, 0, 0, 0, 0, 0, 0, 0, 0, 10, 0, 0,
      0, 0, 0, 96, 64, 102, 114, 117, 105, 116, 0, 0, 0, 0, 0, 0, 0, 0, 0, 0, 98, 111,
      111, 107, 0, 0, 0, 0, 0, 0, 0, 0, 0, 0, 0, 0, 0, 0, 0, 0, 2, 0, 0, 0, 0, 192,
      71, 68, 103, 111, 111, 100, 115, 0, 0, 0, 0, 0, 0, 0, 0, 0, 0]"

section \<open>Facts about the codec\<close>

lemma RECORD_SIZE_43: "RECORD_SIZE = 43"
  by (simp add: RECORD_SIZE_def calcsize_def FORMAT_def align_up_def)

section \<open>The reading loop\<close>

lemma slot_0: "slot 0 data = take RECORD_SIZE data"
  by (simp add: slot_def)

lemma slot_Suc: "slot (Suc i) data = slot i (drop RECORD_SIZE data)"
  by (simp add: slot_def add.commute)

lemma read_loop_short:
  assumes "length data < RECORD_SIZE"
  shows "read_loop match idx data = (if data = [] then [] else [CorruptRecord idx (length data)])"
  using assms by (subst read_loop.simps) (auto simp: Let_def)

lemma read_loop_full:
  assumes "RECORD_SIZE \<le> length data"
  shows "read_loop match idx data =
         (if match (decode_fields (slot 0 data))
          then [RecordLine idx (decode_fields (slot 0 data))] else [])
         @ read_loop match (Suc idx) (drop RECORD_SIZE data)"
  using assms RECORD_SIZE_43
  by (subst read_loop.simps) (auto simp: Let_def unpack_record_def slot_0)

lemma line_of_Suc:
  "line_of match idx data (Suc i) = line_of match (Suc idx) (drop RECORD_SIZE data) i"
  by (simp add: line_of_def slot_Suc)

text \<open>
  On a file of \<open>k\<close> whole records and \<open>m\<close> further bytes the loop prints the matching
  records in order and, when \<open>m > 0\<close>, ends with the line for the incomplete record.
\<close>

lemma read_loop_records:
  assumes "length data = k * RECORD_SIZE + m" "m < RECORD_SIZE"
  shows "read_loop match idx data =
         concat (map (line_of match idx data) [0..<k])
         @ (if m = 0 then [] else [CorruptRecord (idx + k) m])"
  using assms
proof (induction k arbitrary: idx data)
  case 0
  then show ?case by (auto simp: read_loop_short)
next
  case (Suc k)
  have len: "RECORD_SIZE \<le> length data" using Suc.prems by simp
  have rest: "length (drop RECORD_SIZE data) = k * RECORD_SIZE + m" using Suc.prems by simp
  have "map (line_of match idx data) [0..<Suc k]
        = line_of match idx data 0 # map (line_of match idx data) (map Suc [0..<k])"
    by (simp only: map_Suc_upt upt_conv_Cons [of 0 "Suc k"] zero_less_Suc list.map)
  also have "map (line_of match idx data) (map Suc [0..<k])
        = map (line_of match (Suc idx) (drop RECORD_SIZE data)) [0..<k]"
    by (simp add: line_of_Suc)
  finally have shift: "concat (map (line_of match idx data) [0..<Suc k])
        = line_of match idx data 0
          @ concat (map (line_of match (Suc idx) (drop RECORD_SIZE data)) [0..<k])"
    by simp
  have first: "line_of match idx data 0
     = (if match (decode_fields (slot 0 data))
        then [RecordLine idx (decode_fields (slot 0 data))] else [])"
    by (simp add: line_of_def)
  show ?case
    unfolding shift read_loop_full [OF len] first
    using Suc.IH [OF rest Suc.prems(2), of "Suc idx"] by simp
qed

lemma all_lines:
  "concat (map (line_of (\<lambda>r. True) idx bytes) [0..<k])
   = map (\<lambda>i. RecordLine (idx + i) (decode_fields (slot i bytes))) [0..<k]"
  by (induction k) (simp_all add: line_of_def)

section \<open>A file whose size is no multiple of the record size\<close>

lemma print_db_corrupt:
  assumes "length bytes = k * RECORD_SIZE + m" "0 < m" "m < RECORD_SIZE"
  shows "print_db_from_file (Some bytes) =
           Header # SizeWarning (length bytes)
           # map (\<lambda>i. RecordLine (Suc i) (decode_fields (slot i bytes))) [0..<k]
           @ [CorruptRecord (Suc k) m]"
  using assms
  by (simp add: print_db_from_file_def read_loop_records [OF assms(1,3)] all_lines)

text \<open>
  Claim C4, as stated, wants both \<^verbatim>\<open>insert_record_at\<close> and \<^verbatim>\<open>delete_record\<close> to report
  the inconsistent size on every file of \<open>k * 43 + m\<close> bytes with \<open>0 < m < 43\<close>. Both
  functions test the position first: on the one-byte file, position 0 is answered with
  the message for an incorrect position.
\<close>

theorem corrupt_file_position_zero:
  "length [0 :: byte] = 0 * RECORD_SIZE + 1
   \<and> insert_record_at (Some [0]) 0 [] 0 0 [] = ([BadPosition], Some [0])
   \<and> delete_record (Some [0]) 0 = ([BadPosition], Some [0])
   \<and> map condition_of (fst (insert_record_at (Some [0]) 0 [] 0 0 [])) \<noteq> [Some SizeInconsistency]
   \<and> map condition_of (fst (delete_record (Some [0]) 0)) \<noteq> [Some SizeInconsistency]"
  by (simp add: insert_record_at_def delete_record_def)

text \<open>
  Claim C4, amended: on a file of \<open>k * 43 + m\<close> bytes with \<open>0 < m < 43\<close> the listing
  prints the size warning, the \<open>k\<close> records of the positions \<open>1..k\<close> and then one line
  for the incomplete record with the byte count \<open>m\<close>, and raises nothing. On the same
  file \<^verbatim>\<open>insert_record_at\<close> and \<^verbatim>\<open>delete_record\<close> report the inconsistent size for every
  position from 1 on and an incorrect position for every position below 1; in both
  cases the file keeps every byte.
\<close>

theorem corrupt_file_detected:
  assumes "length bytes = k * RECORD_SIZE + m" "0 < m" "m < RECORD_SIZE"
  shows "print_db_from_file (Some bytes) =
           Header # SizeWarning (length bytes)
           # map (\<lambda>i. RecordLine (Suc i) (decode_fields (slot i bytes))) [0..<k]
           @ [CorruptRecord (Suc k) m]
         \<and> insert_record_at (Some bytes) pos name count price category =
             ([if pos < 1 then BadPosition else BadFileSize], Some bytes)
         \<and> delete_record (Some bytes) pos =
             ([if pos < 1 then BadPosition else BadFileSize], Some bytes)
         \<and> condition_of BadFileSize = Some SizeInconsistency
         \<and> condition_of BadPosition = Some PositionOutOfRange"
proof -
  have "length bytes mod RECORD_SIZE \<noteq> 0" using assms by simp
  then show ?thesis
    using print_db_corrupt [OF assms]
    by (simp add: insert_record_at_def delete_record_def Let_def)
qed

theorem corrupt_file_detected_witness:
  "print_db_from_file (Some (replicate 44 0)) =
     [Header, SizeWarning 44, RecordLine 1 (decode_fields (slot 0 (replicate 44 0))),
      CorruptRecord 2 1]
   \<and> insert_record_at (Some (replicate 44 0)) 1 [] 0 0 [] = ([BadFileSize], Some (replicate 44 0))
   \<and> delete_record (Some (replicate 44 0)) 1 = ([BadFileSize], Some (replicate 44 0))"
  using corrupt_file_detected [of "replicate 44 0" 1 1 1 "[]" 0 0 "[]"]
  by (simp add: RECORD_SIZE_43)

section \<open>What the codec accepts\<close>

lemma utf8_char_None_iff:
  "(utf8_char c = None) = (0x110000 \<le> c \<or> (0xD800 \<le> c \<and> c < 0xE000))"
  by (auto simp: utf8_char_def)

lemma utf8_nat_ok: "(utf8_nat s \<noteq> None) = text_ok s"
proof (induction s)
  case Nil
  show ?case by (simp add: text_ok_def)
next
  case (Cons c s)
  show ?case
  proof (cases "utf8_char c")
    case None
    then show ?thesis using utf8_char_None_iff [of c] by (auto simp: text_ok_def)
  next
    case (Some bs)
    then have "\<not> (0x110000 \<le> c \<or> (0xD800 \<le> c \<and> c < 0xE000))"
      using utf8_char_None_iff [of c] by simp
    then have "text_ok (c # s) = text_ok s" by (auto simp: text_ok_def)
    then show ?thesis using Cons.IH Some by (auto split: option.splits)
  qed
qed

lemma encode_utf8_cases:
  "encode_utf8 s =
    (if text_ok s then Inr (map of_nat (the (utf8_nat s))) else Inl UnicodeEncodeError)"
  using utf8_nat_ok [of s] by (auto simp: encode_utf8_def split: option.splits)

lemma length_ljust_take: "length (ljust k (take k bs)) = k"
  by (simp add: ljust_def)

lemma length_le32: "length (le32 n) = 4"
  by (simp add: le32_def)

lemma pack_i_cases:
  "pack_i n = (if count_ok n then Inr (le32 (nat (n mod 4294967296))) else Inl StructError)"
  by (simp add: pack_i_def count_ok_def)

lemma length_pack_f: "length (pack_f x) = 4"
  by (simp add: pack_f_def le32_def)

text \<open>Every outcome of \<^verbatim>\<open>pack_record\<close>, with the exception raised when it fails.\<close>

lemma pack_record_cases:
  "pack_record name count price category =
    (if \<not> text_ok name \<or> \<not> text_ok category then Inl UnicodeEncodeError
     else if \<not> count_ok count then Inl StructError
     else Inr (ljust 20 (take 20 (map of_nat (the (utf8_nat name))))
               @ le32 (nat (count mod 4294967296))
               @ pack_f price
               @ ljust 15 (take 15 (map of_nat (the (utf8_nat category))))))"
  by (simp add: pack_record_def encode_utf8_cases pack_i_cases)

lemma pack_record_length:
  assumes "pack_record name count price category = Inr block"
  shows "length block = RECORD_SIZE"
  using assms
  by (auto simp: pack_record_cases RECORD_SIZE_43 length_ljust_take length_le32
                 length_pack_f split: if_splits)

text \<open>
  Claim C7, as stated, lets the count be any integer and the texts be any strings. The
  count \<open>2^31\<close> does not fit the format \<^verbatim>\<open>i\<close>, and \<^verbatim>\<open>struct.pack\<close> raises
  \<^verbatim>\<open>struct.error\<close>; a name that holds the surrogate U+D800 is refused by
  \<^verbatim>\<open>encode\<close> with \<^verbatim>\<open>UnicodeEncodeError\<close>.
\<close>

theorem pack_record_raises:
  "pack_record [] 2147483648 0 [] = Inl StructError
   \<and> pack_record [55296] 0 0 [] = Inl UnicodeEncodeError"
  by (simp add: pack_record_cases text_ok_def count_ok_def)

text \<open>
  Claim C7, amended: for every record value whose name and category are strings of any
  length without surrogate code points and whose count lies in the signed 32-bit range,
  whatever float the price is, \<^verbatim>\<open>pack_record\<close> raises nothing and returns a block of
  exactly 43 bytes; a text field longer than its width is cut to the width (20 and 15
  bytes), a shorter one is filled with zero bytes.
\<close>

theorem pack_record_total:
  assumes "text_ok name" "text_ok category" "count_ok count"
  shows "\<exists>block nb cb. pack_record name count price category = Inr block
          \<and> length block = 43 \<and> RECORD_SIZE = 43
          \<and> encode_utf8 name = Inr nb \<and> take 20 block = ljust 20 (take 20 nb)
          \<and> encode_utf8 category = Inr cb \<and> drop 28 block = ljust 15 (take 15 cb)"
  using assms
  by (simp add: pack_record_cases encode_utf8_cases RECORD_SIZE_43 length_ljust_take
                length_le32 length_pack_f)

theorem pack_record_total_witness:
  "text_ok (replicate 30 97) \<and> text_ok [] \<and> count_ok 5
   \<and> (\<exists>block nb. pack_record (replicate 30 97) 5 0x7FEFFFFFFFFFFFFF [] = Inr block
         \<and> length block = 43
         \<and> encode_utf8 (replicate 30 97) = Inr nb \<and> take 20 block = ljust 20 (take 20 nb))"
proof -
  have h: "text_ok (replicate 30 97)" "text_ok []" "count_ok 5"
    by (simp_all add: text_ok_def count_ok_def list_all_iff)
  show ?thesis
    using h pack_record_total [OF h, of "0x7FEFFFFFFFFFFFFF"] by blast
qed

section \<open>Positions at the boundary\<close>

text \<open>
  Claim C5, as stated, wants the insertion at position \<open>n + 1\<close> to succeed for every
  record and \<^verbatim>\<open>delete_record\<close> on an empty store to report the empty store. On the
  empty file, inserting at position 1 a record whose count is \<open>2^31\<close> ends with the
  \<^verbatim>\<open>struct.error\<close> of \<^verbatim>\<open>pack_record\<close> and appends nothing; and \<^verbatim>\<open>delete_record\<close>
  tests the position first, so position 0 is answered with the message for an incorrect
  position.
\<close>

theorem boundary_failures_on_empty:
  "insert_record_at (Some []) 1 [] 2147483648 0 [] = ([Uncaught StructError], Some [])
   \<and> delete_record (Some []) 0 = ([BadPosition], Some [])
   \<and> map condition_of (fst (delete_record (Some []) 0)) \<noteq> [Some EmptyStore]"
  by (simp add: insert_record_at_def delete_record_def pack_record_cases text_ok_def
                count_ok_def)

text \<open>
  Claim C5, amended: on every consistent store of \<open>n\<close> records, inserting at position
  \<open>n + 1\<close> a record whose texts hold no surrogate and whose count lies in the signed
  32-bit range, whatever float its price is, succeeds and appends its block; inserting
  at position 0 or at position \<open>n + 2\<close> is refused as out of range and the file is not
  modified; deleting from the empty store (\<open>n = 0\<close>) is refused with the message for
  the empty store at every position from 1 on, with the message for an incorrect
  position below 1, and the file is not modified.
\<close>

theorem boundary_positions:
  assumes "length bytes = n * RECORD_SIZE"
  shows "(text_ok name \<and> text_ok category \<and> count_ok count \<longrightarrow>
           (\<exists>block. pack_record name count price category = Inr block
              \<and> insert_record_at (Some bytes) (int n + 1) name count price category
                  = ([Appended], Some (bytes @ block))))
         \<and> insert_record_at (Some bytes) 0 name count price category
             = ([BadPosition], Some bytes)
         \<and> insert_record_at (Some bytes) (int n + 2) name count price category
             = ([BadPositionRange (n + 1)], Some bytes)
         \<and> condition_of BadPosition = Some PositionOutOfRange
         \<and> condition_of (BadPositionRange (n + 1)) = Some PositionOutOfRange
         \<and> (n = 0 \<longrightarrow> delete_record (Some bytes) pos
               = ([if pos < 1 then BadPosition else EmptyDb], Some bytes))
         \<and> condition_of EmptyDb = Some EmptyStore"
  using assms
  by (auto simp: insert_record_at_def delete_record_def Let_def RECORD_SIZE_43
                 pack_record_cases write_at_def)

theorem boundary_positions_witness:
  "(\<exists>block. pack_record [97] 1 0x7FEFFFFFFFFFFFFF [98] = Inr block
      \<and> insert_record_at (Some []) 1 [97] 1 0x7FEFFFFFFFFFFFFF [98] = ([Appended], Some block))
   \<and> insert_record_at (Some []) 0 [97] 1 0x7FEFFFFFFFFFFFFF [98] = ([BadPosition], Some [])
   \<and> insert_record_at (Some []) 2 [97] 1 0x7FEFFFFFFFFFFFFF [98]
       = ([BadPositionRange 1], Some [])
   \<and> delete_record (Some []) 1 = ([EmptyDb], Some [])"
  using boundary_positions [of "[]" 0 "[97]" "[98]" 1 "0x7FEFFFFFFFFFFFFF" 1]
  by (simp add: text_ok_def count_ok_def)

section \<open>The searches on a damaged or empty file\<close>

lemma py_int_1: "py_int [49] = Some 1"
  by (simp add: py_int_def transform_decimal_and_space_def c_isspace_def is_digit_def
                digits_value_def)

text \<open>
  Claim C9, as stated, wants every search to report the inconsistent size on every file
  whose size is no multiple of 43. The two-field search checks its field numbers first:
  with twice the field 1 it reports the equal fields, on the one-byte file as well.
\<close>

theorem two_fields_equal_on_corrupt_file:
  "length [0 :: byte] mod RECORD_SIZE \<noteq> 0
   \<and> two_fields_search (Some [0]) [49] [] [49] [] = [FieldsEqual]
   \<and> map condition_of (two_fields_search (Some [0]) [49] [] [49] []) \<noteq> [Some SizeInconsistency]"
  by (simp add: two_fields_search_def py_int_1 RECORD_SIZE_43)

text \<open>
  Claim C9, amended: on every file whose length is no multiple of 43 bytes the one-field
  search, the two-field search given two different field numbers from 1 to 4, and the
  comparison search given an operator and a number that parses, report the
  inconsistent size and print no record; on the file of zero bytes each of them reports
  the empty store and prints no match. A two-field search or comparison search whose
  query does not pass these checks reports the invalid query, whatever the file holds.
\<close>

theorem searches_on_bad_store:
  "(length bytes mod RECORD_SIZE \<noteq> 0 \<longrightarrow>
      one_field_search (Some bytes) field_num v = [BadFileSize]
      \<and> (fields_accepted field1_num field2_num \<longrightarrow>
           two_fields_search (Some bytes) field1_num value1 field2_num value2 = [BadFileSize])
      \<and> (condition_accepted condition \<longrightarrow>
           digit_search (Some bytes) condition = [BadFileSize]))
   \<and> one_field_search (Some []) field_num v = [EmptyDb]
   \<and> (fields_accepted field1_num field2_num \<longrightarrow>
        two_fields_search (Some []) field1_num value1 field2_num value2 = [EmptyDb])
   \<and> (condition_accepted condition \<longrightarrow> digit_search (Some []) condition = [EmptyDb])
   \<and> (\<not> fields_accepted field1_num field2_num \<longrightarrow>
        (\<exists>e. two_fields_search (Some bytes) field1_num value1 field2_num value2 = [e]
             \<and> condition_of e = Some InvalidQuery))
   \<and> (\<not> condition_accepted condition \<longrightarrow>
        (\<exists>e. digit_search (Some bytes) condition = [e] \<and> condition_of e = Some InvalidQuery))
   \<and> condition_of BadFileSize = Some SizeInconsistency
   \<and> condition_of EmptyDb = Some EmptyStore"
proof -
  have one: "length bytes mod RECORD_SIZE \<noteq> 0 \<Longrightarrow>
             one_field_search (Some bytes) field_num v = [BadFileSize]"
    by (simp add: one_field_search_def)
  have one0: "one_field_search (Some []) field_num v = [EmptyDb]"
    by (simp add: one_field_search_def)
  have two: "fields_accepted field1_num field2_num \<Longrightarrow> length bytes mod RECORD_SIZE \<noteq> 0 \<Longrightarrow>
             two_fields_search (Some bytes) field1_num value1 field2_num value2 = [BadFileSize]"
    by (auto simp: two_fields_search_def fields_accepted_def split: option.splits)
  have two0: "fields_accepted field1_num field2_num \<Longrightarrow>
              two_fields_search (Some []) field1_num value1 field2_num value2 = [EmptyDb]"
    by (auto simp: two_fields_search_def fields_accepted_def split: option.splits)
  have two_bad: "\<not> fields_accepted field1_num field2_num \<Longrightarrow>
        \<exists>e. two_fields_search (Some bytes) field1_num value1 field2_num value2 = [e]
             \<and> condition_of e = Some InvalidQuery"
    by (auto simp: two_fields_search_def fields_accepted_def split: option.splits)
  have dig: "condition_accepted condition \<Longrightarrow> length bytes mod RECORD_SIZE \<noteq> 0 \<Longrightarrow>
             digit_search (Some bytes) condition = [BadFileSize]"
    by (auto simp: digit_search_def condition_accepted_def Let_def split: list.splits)
  have dig0: "condition_accepted condition \<Longrightarrow> digit_search (Some []) condition = [EmptyDb]"
    by (auto simp: digit_search_def condition_accepted_def Let_def split: list.splits)
  have dig_bad: "\<not> condition_accepted condition \<Longrightarrow>
        \<exists>e. digit_search (Some bytes) condition = [e] \<and> condition_of e = Some InvalidQuery"
    by (auto simp: digit_search_def condition_accepted_def Let_def split: list.splits)
  show ?thesis
    using one one0 two two0 two_bad dig dig0 dig_bad by simp
qed

lemma strip_gt_5: "strip [62, 53] = [62, 53]" "strip [53] = [53]"
  by (simp_all add: strip_def py_isspace_def c_isspace_def)

lemma py_int_5: "py_int [53] = Some 5"
  by (simp add: py_int_def transform_decimal_and_space_def c_isspace_def is_digit_def
                digits_value_def)

lemma py_int_2: "py_int [50] = Some 2"
  by (simp add: py_int_def transform_decimal_and_space_def c_isspace_def is_digit_def
                digits_value_def)

theorem searches_on_bad_store_witness:
  "one_field_search (Some [0]) [49] [] = [BadFileSize]
   \<and> two_fields_search (Some [0]) [49] [] [50] [] = [BadFileSize]
   \<and> digit_search (Some [0]) [62, 53] = [BadFileSize]
   \<and> one_field_search (Some []) [49] [] = [EmptyDb]
   \<and> two_fields_search (Some []) [49] [] [50] [] = [EmptyDb]
   \<and> digit_search (Some []) [62, 53] = [EmptyDb]
   \<and> (\<exists>e. two_fields_search (Some [0]) [49] [] [49] [] = [e]
          \<and> condition_of e = Some InvalidQuery)
   \<and> (\<exists>e. digit_search (Some [0]) [] = [e] \<and> condition_of e = Some InvalidQuery)"
proof -
  have acc: "fields_accepted [49] [50]" "condition_accepted [62, 53]"
    by (simp_all add: fields_accepted_def condition_accepted_def py_int_1 py_int_2 strip_gt_5
                      parse_target_def py_int_5)
  have rej: "\<not> fields_accepted [49] [49]" "\<not> condition_accepted []"
    by (simp_all add: fields_accepted_def condition_accepted_def py_int_1 strip_def)
  have size: "length [0 :: byte] mod RECORD_SIZE \<noteq> 0" by (simp add: RECORD_SIZE_43)
  show ?thesis
    using searches_on_bad_store [of "[0]" "[49]" "[]" "[49]" "[50]" "[]" "[]" "[62, 53]"]
          searches_on_bad_store [of "[0]" "[49]" "[]" "[49]" "[49]" "[]" "[]" "[]"]
          acc rej size
    by simp
qed

section \<open>The comparison search\<close>

lemma compare_ok_float:
  "compare_ok op (FloatTarget x) =
    (\<lambda>(name, count, price, category).
       (op = 62 \<and> float_gt price x) \<or> (op = 60 \<and> float_lt price x)
       \<or> (op = 61 \<and> float_eq price x))"
  by (auto simp: compare_ok_def fun_eq_iff)

lemma compare_ok_int:
  "compare_ok op (IntTarget k) =
    (\<lambda>(name, count, price, category).
       (op = 62 \<and> count > k) \<or> (op = 60 \<and> count < k) \<or> (op = 61 \<and> count = k))"
  by (auto simp: compare_ok_def fun_eq_iff)

lemma digit_search_run:
  assumes "strip condition = op # rest" "op \<in> {62, 60, 61}" "strip rest \<noteq> []"
    and "parse_target (strip rest) = Some tgt"
    and "length bytes = n * RECORD_SIZE" "0 < n"
  shows "digit_search (Some bytes) condition
         = report_found (concat (map (line_of (compare_ok op tgt) 1 bytes) [0..<n]))"
proof -
  have "length bytes mod RECORD_SIZE = 0" "length bytes div RECORD_SIZE \<noteq> 0"
    using assms(5,6) by (simp_all add: RECORD_SIZE_43)
  moreover have "read_loop (compare_ok op tgt) 1 bytes
                 = concat (map (line_of (compare_ok op tgt) 1 bytes) [0..<n])"
    using read_loop_records [of bytes n 0 "compare_ok op tgt" 1] assms(5)
    by (simp add: RECORD_SIZE_43)
  ultimately show ?thesis
    using assms(1-4) by (simp add: digit_search_def Let_def)
qed

text \<open>
  Claim C6: the comparison search takes the first character of the stripped condition
  as the operator (62, 60 and 61 are the code points of the greater-than, less-than and
  equals signs) and the stripped remainder as the number. A number with a dot (code
  point 46) is parsed by \<^verbatim>\<open>float\<close> and compared with the price of every record; a
  number without a dot is parsed by \<^verbatim>\<open>int\<close> and compared with the count. An empty
  condition, another operator, a missing number and a number that does not parse are
  each answered with one message for an invalid query, whatever the file holds, and no
  record is read; in particular a number that neither \<^verbatim>\<open>int\<close> nor \<^verbatim>\<open>float\<close> parses is
  never answered with the message that nothing matched.
\<close>

theorem comparison_dispatch:
  "(strip condition = [] \<longrightarrow> digit_search (Some bytes) condition = [EmptyCondition])
   \<and> (strip condition = op # rest \<and> op \<notin> {62, 60, 61} \<longrightarrow>
        digit_search (Some bytes) condition = [BadOperator])
   \<and> (strip condition = op # rest \<and> op \<in> {62, 60, 61} \<and> strip rest = [] \<longrightarrow>
        digit_search (Some bytes) condition = [NoNumber])
   \<and> (strip condition = op # rest \<and> op \<in> {62, 60, 61} \<and> strip rest \<noteq> []
        \<and> ((46 \<in> set (strip rest) \<and> py_float (strip rest) = None)
             \<or> (46 \<notin> set (strip rest) \<and> py_int (strip rest) = None)
             \<or> (py_int (strip rest) = None \<and> py_float (strip rest) = None)) \<longrightarrow>
        digit_search (Some bytes) condition = [BadNumber])
   \<and> (strip condition = op # rest \<and> op \<in> {62, 60, 61} \<and> 46 \<in> set (strip rest)
        \<and> py_float (strip rest) = Some x \<and> length bytes = n * RECORD_SIZE \<and> 0 < n \<longrightarrow>
        digit_search (Some bytes) condition
        = report_found (concat (map (line_of
            (\<lambda>(name, count, price, category).
               (op = 62 \<and> float_gt price x) \<or> (op = 60 \<and> float_lt price x)
               \<or> (op = 61 \<and> float_eq price x)) 1 bytes) [0..<n])))
   \<and> (strip condition = op # rest \<and> op \<in> {62, 60, 61} \<and> strip rest \<noteq> []
        \<and> 46 \<notin> set (strip rest)
        \<and> py_int (strip rest) = Some k \<and> length bytes = n * RECORD_SIZE \<and> 0 < n \<longrightarrow>
        digit_search (Some bytes) condition
        = report_found (concat (map (line_of
            (\<lambda>(name, count, price, category).
               (op = 62 \<and> count > k) \<or> (op = 60 \<and> count < k) \<or> (op = 61 \<and> count = k))
            1 bytes) [0..<n])))
   \<and> condition_of EmptyCondition = Some InvalidQuery
   \<and> condition_of BadOperator = Some InvalidQuery
   \<and> condition_of NoNumber = Some InvalidQuery
   \<and> condition_of BadNumber = Some InvalidQuery"
proof -
  have c1: "strip condition = [] \<longrightarrow> digit_search (Some bytes) condition = [EmptyCondition]"
    by (simp add: digit_search_def)
  have c2: "strip condition = op # rest \<and> op \<notin> {62, 60, 61} \<longrightarrow>
            digit_search (Some bytes) condition = [BadOperator]"
    by (simp add: digit_search_def)
  have c3: "strip condition = op # rest \<and> op \<in> {62, 60, 61} \<and> strip rest = [] \<longrightarrow>
            digit_search (Some bytes) condition = [NoNumber]"
    by (simp add: digit_search_def)
  have c4: "strip condition = op # rest \<and> op \<in> {62, 60, 61} \<and> strip rest \<noteq> []
        \<and> ((46 \<in> set (strip rest) \<and> py_float (strip rest) = None)
             \<or> (46 \<notin> set (strip rest) \<and> py_int (strip rest) = None)
             \<or> (py_int (strip rest) = None \<and> py_float (strip rest) = None)) \<longrightarrow>
        digit_search (Some bytes) condition = [BadNumber]"
    by (auto simp: digit_search_def Let_def parse_target_def)
  have c5: "strip condition = op # rest \<and> op \<in> {62, 60, 61} \<and> 46 \<in> set (strip rest)
        \<and> py_float (strip rest) = Some x \<and> length bytes = n * RECORD_SIZE \<and> 0 < n \<longrightarrow>
        digit_search (Some bytes) condition
        = report_found (concat (map (line_of
            (\<lambda>(name, count, price, category).
               (op = 62 \<and> float_gt price x) \<or> (op = 60 \<and> float_lt price x)
               \<or> (op = 61 \<and> float_eq price x)) 1 bytes) [0..<n]))"
  proof (intro impI, elim conjE)
    assume a: "strip condition = op # rest" "op \<in> {62, 60, 61}" "46 \<in> set (strip rest)"
      "py_float (strip rest) = Some x" "length bytes = n * RECORD_SIZE" "0 < n"
    have "digit_search (Some bytes) condition
          = report_found (concat (map (line_of (compare_ok op (FloatTarget x)) 1 bytes) [0..<n]))"
      by (rule digit_search_run) (use a in \<open>auto simp: parse_target_def\<close>)
    then show "digit_search (Some bytes) condition
        = report_found (concat (map (line_of
            (\<lambda>(name, count, price, category).
               (op = 62 \<and> float_gt price x) \<or> (op = 60 \<and> float_lt price x)
               \<or> (op = 61 \<and> float_eq price x)) 1 bytes) [0..<n]))"
      unfolding compare_ok_float .
  qed
  have c6: "strip condition = op # rest \<and> op \<in> {62, 60, 61} \<and> strip rest \<noteq> []
        \<and> 46 \<notin> set (strip rest)
        \<and> py_int (strip rest) = Some k \<and> length bytes = n * RECORD_SIZE \<and> 0 < n \<longrightarrow>
        digit_search (Some bytes) condition
        = report_found (concat (map (line_of
            (\<lambda>(name, count, price, category).
               (op = 62 \<and> count > k) \<or> (op = 60 \<and> count < k) \<or> (op = 61 \<and> count = k))
            1 bytes) [0..<n]))"
  proof (intro impI, elim conjE)
    assume a: "strip condition = op # rest" "op \<in> {62, 60, 61}" "strip rest \<noteq> []"
      "46 \<notin> set (strip rest)"
      "py_int (strip rest) = Some k" "length bytes = n * RECORD_SIZE" "0 < n"
    have "digit_search (Some bytes) condition
          = report_found (concat (map (line_of (compare_ok op (IntTarget k)) 1 bytes) [0..<n]))"
      by (rule digit_search_run) (use a in \<open>auto simp: parse_target_def\<close>)
    then show "digit_search (Some bytes) condition
        = report_found (concat (map (line_of
            (\<lambda>(name, count, price, category).
               (op = 62 \<and> count > k) \<or> (op = 60 \<and> count < k) \<or> (op = 61 \<and> count = k))
            1 bytes) [0..<n]))"
      unfolding compare_ok_int .
  qed
  show ?thesis
    by (intro conjI c1 c2 c3 c4 c5 c6) simp_all
qed

lemma strip_lit: "strip [62, 53, 46, 48] = [62, 53, 46, 48]" "strip [53, 46, 48] = [53, 46, 48]"
  "strip [120] = [120]" "strip [62, 97] = [62, 97]" "strip [97] = [97]"
  by (simp_all add: strip_def py_isspace_def c_isspace_def)

lemma rat_to_f64_5: "rat_to_f64 50 10 = 0x4014000000000000"
  by (simp add: rat_to_f64_def top_bit.simps Let_def)

lemma py_float_5: "py_float [53, 46, 48] = Some 0x4014000000000000"
  by (simp add: py_float_def parse_double_def parse_exponent_def
                transform_decimal_and_space_def c_isspace_def is_digit_def digits_value_def
                rat_to_f64_5 Let_def str_of_def)

lemma py_int_a: "py_int [97] = None"
  by (simp add: py_int_def transform_decimal_and_space_def c_isspace_def is_digit_def)

theorem comparison_dispatch_witness:
  "digit_search (Some (replicate 43 0)) [62, 53, 46, 48]
     = report_found (concat (map (line_of
         (\<lambda>(name, count, price, category). float_gt price 0x4014000000000000)
         1 (replicate 43 0)) [0..<1]))
   \<and> digit_search (Some (replicate 43 0)) [62, 53]
     = report_found (concat (map (line_of
         (\<lambda>(name, count, price, category). count > 5) 1 (replicate 43 0)) [0..<1]))
   \<and> digit_search (Some (replicate 43 0)) [120] = [BadOperator]
   \<and> digit_search (Some (replicate 43 0)) [62, 97] = [BadNumber]"
  using comparison_dispatch [of "[62, 53, 46, 48]" "replicate 43 0" 62 "[53, 46, 48]"
                                "0x4014000000000000" 1 0]
        comparison_dispatch [of "[62, 53]" "replicate 43 0" 62 "[53]" 0 1 5]
        comparison_dispatch [of "[120]" "replicate 43 0" 120 "[]" 0 1 0]
        comparison_dispatch [of "[62, 97]" "replicate 43 0" 62 "[97]" 0 1 0]
  by (simp add: strip_lit strip_gt_5 py_float_5 py_int_5 py_int_a RECORD_SIZE_43)

section \<open>The end-to-end scenario\<close>

lemma replicate_num: "replicate (numeral k) x = x # replicate (pred_numeral k) x"
  by (simp add: numeral_eq_Suc)

lemma apple_block:
  "pack_record (str_of ''apple'') 10 0x400C000000000000 (str_of ''fruit'')
   = Inr [97, 112, 112, 108, 101, 0, 0, 0, 0, 0, 0, 0, 0, 0, 0, 0, 0, 0, 0, 0,
          10, 0, 0, 0, 0, 0, 96, 64,
          102, 114, 117, 105, 116, 0, 0, 0, 0, 0, 0, 0, 0, 0, 0]"
  by (simp add: pack_record_def encode_utf8_def str_of_def utf8_char_def pack_i_def pack_f_def
                f64_to_f32_def round_shift_def le32_def ljust_def Let_def replicate_num)

lemma book_block:
  "pack_record (str_of ''book'') 2 0x4088F80000000000 (str_of ''goods'')
   = Inr [98, 111, 111, 107, 0, 0, 0, 0, 0, 0, 0, 0, 0, 0, 0, 0, 0, 0, 0, 0,
          2, 0, 0, 0, 0, 192, 71, 68,
          103, 111, 111, 100, 115, 0, 0, 0, 0, 0, 0, 0, 0, 0, 0]"
  by (simp add: pack_record_def encode_utf8_def str_of_def utf8_char_def pack_i_def pack_f_def
                f64_to_f32_def round_shift_def le32_def ljust_def Let_def replicate_num)

lemma scenario_store_eq: "scenario_store = Some scenario_bytes"
  by (simp add: scenario_store_def insert_record_at_def apple_block book_block RECORD_SIZE_43
                write_at_def Let_def scenario_bytes_def)

lemma scenario_length: "length scenario_bytes = 2 * RECORD_SIZE + 0"
  by (simp add: scenario_bytes_def RECORD_SIZE_43)

lemma scenario_slot_0: "decode_fields (slot 0 scenario_bytes) = apple"
  by (simp add: scenario_bytes_def slot_def RECORD_SIZE_43 decode_fields_def
                decode_utf8_ignore_def rstrip_nul_def unpack_i_def unpack_f_def of_le_def
                f32_to_f64_def apple_def str_of_def is_cont_def Let_def)

lemma scenario_slot_1: "decode_fields (slot 1 scenario_bytes) = book"
  by (simp add: scenario_bytes_def slot_def RECORD_SIZE_43 decode_fields_def
                decode_utf8_ignore_def rstrip_nul_def unpack_i_def unpack_f_def of_le_def
                f32_to_f64_def book_def str_of_def is_cont_def Let_def)

lemma scenario_loop:
  "read_loop match idx scenario_bytes =
     (if match apple then [RecordLine idx apple] else [])
     @ (if match book then [RecordLine (Suc idx) book] else [])"
proof -
  have "[0..<2] = [0, Suc 0]" by (simp add: upt_rec)
  then show ?thesis
    using read_loop_records [OF scenario_length, of "match" idx]
    by (simp add: RECORD_SIZE_43 line_of_def scenario_slot_0
                  scenario_slot_1 [simplified])
qed

lemma str_of_queries:
  "str_of ''2'' = [50]" "str_of ''>5'' = [62, 53]" "str_of ''>5.0'' = [62, 53, 46, 48]"
  by (simp_all add: str_of_def)

lemma float_gt_scenario:
  "\<not> float_gt 0x400C000000000000 0x4014000000000000"
  "float_gt 0x4088F80000000000 0x4014000000000000"
  by (simp_all add: float_gt_def float_lt_def f64_nan_def f64_key_def)

text \<open>
  Claim C8, as stated, wants the comparison with the literal 5.0 to return both
  positions. The price of the first record is 3.5, which is not greater than 5.0: the
  search prints the second record only.
\<close>

theorem scenario_price_above_five:
  "digit_search scenario_store (str_of ''>5.0'')
   \<noteq> [RecordLine 1 apple, RecordLine 2 book]"
  by (simp add: scenario_store_eq str_of_queries digit_search_def strip_lit py_float_5
                parse_target_def scenario_length [simplified] RECORD_SIZE_43 scenario_loop
                compare_ok_def apple_def book_def float_gt_scenario report_found_def Let_def)

text \<open>
  Claim C8, amended: on the store that holds exactly the two records
  \<^verbatim>\<open>("apple", 10, 3.5, "fruit")\<close> and \<^verbatim>\<open>("book", 2, 799.0, "goods")\<close>, the search for
  the count field (field 2) with the value \<^verbatim>\<open>2\<close> prints exactly position 2; the
  comparison search with the operator for greater-than and the literal \<^verbatim>\<open>5\<close> (an
  integer, so the count is compared) prints exactly position 1; and the comparison
  search with the literal \<^verbatim>\<open>5.0\<close> (a float, so the price is compared) prints exactly
  position 2.
\<close>

theorem scenario_searches:
  "one_field_search scenario_store (str_of ''2'') (str_of ''2'') = [RecordLine 2 book]
   \<and> digit_search scenario_store (str_of ''>5'') = [RecordLine 1 apple]
   \<and> digit_search scenario_store (str_of ''>5.0'') = [RecordLine 2 book]"
  by (simp add: scenario_store_eq str_of_queries one_field_search_def digit_search_def
                strip_lit strip_gt_5 py_float_5 py_int_5 py_int_2
                parse_target_def scenario_length [simplified] RECORD_SIZE_43 scenario_loop
                compare_ok_def field_ok_def apple_def book_def float_gt_scenario
                report_found_def Let_def)

section \<open>The two shifting loops\<close>

text \<open>
  One step of the insertion loop moves the record of slot \<open>j\<close> one slot up. Before the
  step the file holds the records up to slot \<open>j + 1\<close> unchanged, followed by the old
  file from slot \<open>j + 1\<close> on moved up by one slot.
\<close>

lemma shift_right_step:
  assumes "length data = n * RECORD_SIZE" "j < n"
  shows "shift_right j (take ((j + 2) * RECORD_SIZE) data @ drop ((j + 1) * RECORD_SIZE) data)
         = take ((j + 1) * RECORD_SIZE) data @ drop (j * RECORD_SIZE) data"
proof -
  let ?S = "take ((j + 2) * 43) data @ drop ((j + 1) * 43) data"
  have len: "length data = n * 43" using assms(1) by (simp add: RECORD_SIZE_43)
  have le: "(j + 1) * 43 \<le> length data" using len assms(2) by simp
  have blk: "read_at (j * 43) 43 ?S = take 43 (drop (j * 43) data)"
    using le by (simp add: read_at_def take_drop min_def)
  have lenblk: "length (take 43 (drop (j * 43) data)) = 43"
    using le by simp
  have pre: "take ((j + 1) * 43) ?S = take ((j + 1) * 43) data"
    using le by (simp add: min_def)
  have post: "drop ((j + 1) * 43 + 43) ?S = drop ((j + 1) * 43) data"
  proof (cases "j + 2 \<le> n")
    case True
    then have "(j + 2) * 43 \<le> length data" using len by simp
    then show ?thesis by (simp add: min_def)
  next
    case False
    then have "n = j + 1" using assms by simp
    then show ?thesis using len by simp
  qed
  have "shift_right j ?S = take ((j + 1) * 43) data @ take 43 (drop (j * 43) data)
                           @ drop ((j + 1) * 43) data"
    unfolding shift_right_def RECORD_SIZE_43 blk write_at_def lenblk pre post
    using le by simp
  also have "take 43 (drop (j * 43) data) @ drop ((j + 1) * 43) data = drop (j * 43) data"
  proof -
    have "drop ((j + 1) * 43) data = drop 43 (drop (j * 43) data)" by (simp add: add.commute)
    then show ?thesis by (simp only: append_take_drop_id)
  qed
  finally show ?thesis unfolding RECORD_SIZE_43 .
qed

lemma insert_loop:
  assumes "length data = n * RECORD_SIZE" "k \<le> n"
  shows "fold shift_right (rev [n - k..<n]) data
         = take ((n - k + 1) * RECORD_SIZE) data @ drop ((n - k) * RECORD_SIZE) data"
  using assms(2)
proof (induction k)
  case 0
  then show ?case using assms(1) by simp
next
  case (Suc k)
  then have k: "k \<le> n" "n - Suc k < n" by simp_all
  have idx: "[n - Suc k..<n] = (n - Suc k) # [n - k..<n]"
    using Suc.prems by (simp add: upt_conv_Cons Suc_diff_Suc)
  have nk: "n - k = n - Suc k + 1" using Suc.prems by simp
  have "fold shift_right (rev [n - Suc k..<n]) data
        = shift_right (n - Suc k) (fold shift_right (rev [n - k..<n]) data)"
    by (simp add: idx)
  also have "\<dots> = shift_right (n - Suc k)
                     (take ((n - Suc k + 2) * RECORD_SIZE) data
                      @ drop ((n - Suc k + 1) * RECORD_SIZE) data)"
    using Suc.IH [OF k(1)] nk by simp
  also have "\<dots> = take ((n - Suc k + 1) * RECORD_SIZE) data
                   @ drop ((n - Suc k) * RECORD_SIZE) data"
    by (rule shift_right_step [OF assms(1) k(2)])
  finally show ?case .
qed

text \<open>The file after an insertion in the middle.\<close>

lemma insert_result:
  assumes "length data = n * RECORD_SIZE" "j < n" "length new_data = RECORD_SIZE"
  shows "write_at (j * RECORD_SIZE) new_data (fold shift_right (rev [j..<n]) data)
         = take (j * RECORD_SIZE) data @ new_data @ drop (j * RECORD_SIZE) data"
proof -
  have len: "length data = n * 43" using assms(1) by (simp add: RECORD_SIZE_43)
  have le: "(j + 1) * 43 \<le> length data" using len assms(2) by simp
  have "fold shift_right (rev [n - (n - j)..<n]) data
        = take ((n - (n - j) + 1) * RECORD_SIZE) data @ drop ((n - (n - j)) * RECORD_SIZE) data"
    by (rule insert_loop [OF assms(1)]) simp
  then have loop: "fold shift_right (rev [j..<n]) data
        = take ((j + 1) * 43) data @ drop (j * 43) data"
    using assms(2) by (simp add: RECORD_SIZE_43)
  show ?thesis
    unfolding loop write_at_def RECORD_SIZE_43
    using le assms(3) by (simp add: RECORD_SIZE_43 min_def)
qed


lemma shift_left_step:
  assumes "length data = n * RECORD_SIZE" "1 \<le> p" "p \<le> m" "m < n"
  shows "shift_left m (take ((p - 1) * RECORD_SIZE) data
                       @ take ((m - p) * RECORD_SIZE) (drop (p * RECORD_SIZE) data)
                       @ drop ((m - 1) * RECORD_SIZE) data)
         = take ((p - 1) * RECORD_SIZE) data
           @ take ((m + 1 - p) * RECORD_SIZE) (drop (p * RECORD_SIZE) data)
           @ drop (m * RECORD_SIZE) data"
proof -
  define A where "A = take ((p - 1) * 43) data"
  define B where "B = take ((m - p) * 43) (drop (p * 43) data)"
  define C where "C = drop ((m - 1) * 43) data"
  define blk where "blk = take 43 (drop (m * 43) data)"
  have len: "length data = n * 43" using assms(1) by (simp add: RECORD_SIZE_43)
  have lenA: "length A = (p - 1) * 43" unfolding A_def using len assms(2-4) by simp
  have lenB: "length B = (m - p) * 43" unfolding B_def using len assms(2-4) by simp
  have lenAB: "length (A @ B) = (m - 1) * 43"
    using lenA lenB assms(2-4) by simp
  have "43 + (m - 1) * 43 = m * 43" using assms(2-4) by simp
  then have C43: "drop 43 C = drop (m * 43) data"
    unfolding C_def by simp
  have lenblk: "length blk = 43" unfolding blk_def using len assms(2-4) by simp
  have rd: "read_at (m * 43) 43 ((A @ B) @ C) = blk"
  proof -
    have "m * 43 = length (A @ B) + 43" using lenAB assms(2-4) by simp
    then have "drop (m * 43) ((A @ B) @ C) = drop 43 C"
      by (simp only: drop_append) simp
    then show ?thesis by (simp only: read_at_def C43 blk_def)
  qed
  have wr: "write_at ((m - 1) * 43) blk ((A @ B) @ C) = (A @ B) @ blk @ drop 43 C"
  proof -
    have "take ((m - 1) * 43) ((A @ B) @ C) = A @ B" using lenAB by simp
    moreover have "drop ((m - 1) * 43 + 43) ((A @ B) @ C) = drop 43 C"
      using lenAB by (simp only: drop_append) simp
    moreover have "(m - 1) * 43 - length ((A @ B) @ C) = 0" using lenAB by simp
    ultimately show ?thesis by (simp only: write_at_def lenblk replicate_0 append_Nil)
  qed
  have Bblk: "B @ blk = take ((m + 1 - p) * 43) (drop (p * 43) data)"
  proof -
    have "(m + 1 - p) * 43 = (m - p) * 43 + 43" using assms(2-4) by simp
    moreover have "drop ((m - p) * 43) (drop (p * 43) data) = drop (m * 43) data"
      using assms(2-4) by (simp add: algebra_simps)
    ultimately show ?thesis unfolding B_def blk_def by (simp only: take_add)
  qed
  have "shift_left m ((A @ B) @ C) = (A @ B) @ blk @ drop 43 C"
    unfolding shift_left_def RECORD_SIZE_43 rd wr ..
  also have "\<dots> = A @ (B @ blk) @ drop (m * 43) data" by (simp add: C43)
  finally show ?thesis
    unfolding Bblk unfolding A_def B_def C_def RECORD_SIZE_43 by simp
qed

lemma delete_loop:
  assumes "length data = n * RECORD_SIZE" "1 \<le> p" "k \<le> n - p"
  shows "fold shift_left [p..<p + k] data
         = take ((p - 1) * RECORD_SIZE) data
           @ take (k * RECORD_SIZE) (drop (p * RECORD_SIZE) data)
           @ drop ((p + k - 1) * RECORD_SIZE) data"
  using assms(3)
proof (induction k)
  case 0
  then show ?case by simp
next
  case (Suc k)
  then have k: "k \<le> n - p" "p \<le> p + k" "p + k < n" by simp_all
  have "fold shift_left [p..<p + Suc k] data
        = shift_left (p + k) (fold shift_left [p..<p + k] data)"
    by simp
  also have "\<dots> = shift_left (p + k)
       (take ((p - 1) * RECORD_SIZE) data
        @ take ((p + k - p) * RECORD_SIZE) (drop (p * RECORD_SIZE) data)
        @ drop ((p + k - 1) * RECORD_SIZE) data)"
    using Suc.IH [OF k(1)] by simp
  also have "\<dots> = take ((p - 1) * RECORD_SIZE) data
           @ take ((p + k + 1 - p) * RECORD_SIZE) (drop (p * RECORD_SIZE) data)
           @ drop ((p + k) * RECORD_SIZE) data"
    by (rule shift_left_step [OF assms(1,2) k(2,3)])
  finally show ?case by simp
qed

text \<open>The file after a deletion.\<close>

lemma delete_result:
  assumes "length data = n * RECORD_SIZE" "1 \<le> p" "p \<le> n"
  shows "truncate ((n - 1) * RECORD_SIZE) (fold shift_left [p..<n] data)
         = take ((p - 1) * RECORD_SIZE) data @ drop (p * RECORD_SIZE) data"
proof -
  have len: "length data = n * 43" using assms(1) by (simp add: RECORD_SIZE_43)
  have "fold shift_left [p..<p + (n - p)] data
         = take ((p - 1) * RECORD_SIZE) data
           @ take ((n - p) * RECORD_SIZE) (drop (p * RECORD_SIZE) data)
           @ drop ((p + (n - p) - 1) * RECORD_SIZE) data"
    by (rule delete_loop [OF assms(1,2)]) simp
  moreover have "take ((n - p) * 43) (drop (p * 43) data) = drop (p * 43) data"
    using len assms(2,3) by simp
  ultimately have loop: "fold shift_left [p..<n] data
         = (take ((p - 1) * 43) data @ drop (p * 43) data) @ drop ((n - 1) * 43) data"
    using assms(2,3) by (simp add: RECORD_SIZE_43)
  define X where "X = take ((p - 1) * 43) data @ drop (p * 43) data"
  have l: "length X = (n - 1) * 43"
    unfolding X_def using len assms(2,3) by (simp add: algebra_simps)
  have "truncate ((n - 1) * 43) (X @ drop ((n - 1) * 43) data) = X"
    using l by (simp add: truncate_def)
  then show ?thesis
    unfolding loop RECORD_SIZE_43 X_def .
qed

section \<open>Decoding what was encoded\<close>

lemma split3:
  fixes c :: nat
  shows "c = c div 4096 * 4096 + c div 64 mod 64 * 64 + c mod 64"
proof -
  have "c mod (64 * 64) = 64 * (c div 64 mod 64) + c mod 64" by (rule mod_mult2_eq)
  moreover have "c = c div 4096 * 4096 + c mod 4096" by simp
  ultimately show ?thesis by simp
qed

lemma split4:
  fixes c :: nat
  shows "c = c div 262144 * 262144 + c div 4096 mod 64 * 4096 + c div 64 mod 64 * 64 + c mod 64"
proof -
  have "c mod (4096 * 64) = 4096 * (c div 4096 mod 64) + c mod 4096" by (rule mod_mult2_eq)
  moreover have "c mod (64 * 64) = 64 * (c div 64 mod 64) + c mod 64" by (rule mod_mult2_eq)
  moreover have "c = c div 262144 * 262144 + c mod 262144" by simp
  ultimately show ?thesis by simp
qed

lemma utf8_char_decode:
  assumes "utf8_char c = Some cb"
  shows "decode_nat (cb @ rest) = c # decode_nat rest"
proof -
  consider "c < 0x80" | "0x80 \<le> c" "c < 0x800" | "0x800 \<le> c" "c < 0x10000" "\<not> (0xD800 \<le> c \<and> c < 0xE000)"
    | "0x10000 \<le> c" "c < 0x110000"
    using assms by (auto simp: utf8_char_def split: if_splits)
  then show ?thesis
  proof cases
    case 1
    then show ?thesis using assms by (auto simp: utf8_char_def)
  next
    case 2
    then have cb: "cb = [0xC0 + c div 64, 0x80 + c mod 64]"
      using assms by (auto simp: utf8_char_def)
    have "c div 64 < 32" "2 \<le> c div 64" using 2 by simp_all
    then show ?thesis unfolding cb by (simp add: is_cont_def)
  next
    case 3
    then have cb: "cb = [0xE0 + c div 4096, 0x80 + c div 64 mod 64, 0x80 + c mod 64]"
      using assms by (auto simp: utf8_char_def)
    define a where "a = c div 4096"
    define b where "b = c div 64 mod 64"
    define d where "d = c mod 64"
    have c: "c = a * 4096 + b * 64 + d" unfolding a_def b_def d_def by (rule split3)
    have bd: "b < 64" "d < 64" unfolding b_def d_def by simp_all
    have hi: "a < 16" using 3 c by simp
    have e0: "a = 0 \<Longrightarrow> 32 \<le> b" using 3 c bd by simp
    have ed: "a = 13 \<Longrightarrow> b < 32" using 3 c bd by simp
    have "decode_nat ([0xE0 + a, 0x80 + b, 0x80 + d] @ rest) = c # decode_nat rest"
      using hi e0 ed bd c by (auto simp: is_cont_def)
    then show ?thesis unfolding cb a_def b_def d_def .
  next
    case 4
    then have cb: "cb = [0xF0 + c div 262144, 0x80 + c div 4096 mod 64, 0x80 + c div 64 mod 64,
             0x80 + c mod 64]"
      using assms by (auto simp: utf8_char_def)
    define a where "a = c div 262144"
    define b where "b = c div 4096 mod 64"
    define d where "d = c div 64 mod 64"
    define e where "e = c mod 64"
    have c: "c = a * 262144 + b * 4096 + d * 64 + e"
      unfolding a_def b_def d_def e_def by (rule split4)
    have bd: "b < 64" "d < 64" "e < 64" unfolding b_def d_def e_def by simp_all
    have hi: "a \<le> 4" using 4 c by simp
    have f0: "a = 0 \<Longrightarrow> 16 \<le> b" using 4 c bd by simp
    have f4: "a = 4 \<Longrightarrow> b < 16" using 4 c bd by simp
    have "decode_nat ([0xF0 + a, 0x80 + b, 0x80 + d, 0x80 + e] @ rest) = c # decode_nat rest"
      using hi f0 f4 bd c by (auto simp: is_cont_def)
    then show ?thesis unfolding cb a_def b_def d_def e_def .
  qed
qed

lemma utf8_nat_decode:
  assumes "utf8_nat s = Some bs"
  shows "decode_nat (bs @ rest) = s @ decode_nat rest"
  using assms
proof (induction s arbitrary: bs)
  case Nil
  then show ?case by simp
next
  case (Cons c s)
  then obtain cb bs' where p: "utf8_char c = Some cb" "utf8_nat s = Some bs'" "bs = cb @ bs'"
    by (auto split: option.splits)
  show ?case
    using utf8_char_decode [OF p(1), of "bs' @ rest"] Cons.IH [OF p(2)] p(3) by simp
qed

lemma decode_nat_zeros: "decode_nat (replicate k 0) = replicate k 0"
  by (induction k) simp_all

lemma utf8_char_bytes: "utf8_char c = Some cb \<Longrightarrow> \<forall>b\<in>set cb. b < 256"
  by (auto simp: utf8_char_def split: if_splits)

lemma utf8_nat_bytes: "utf8_nat s = Some bs \<Longrightarrow> \<forall>b\<in>set bs. b < 256"
proof (induction s arbitrary: bs)
  case Nil
  then show ?case by simp
next
  case (Cons c s)
  then obtain cb bs' where p: "utf8_char c = Some cb" "utf8_nat s = Some bs'" "bs = cb @ bs'"
    by (auto split: option.splits)
  show ?case using utf8_char_bytes [OF p(1)] Cons.IH [OF p(2)] p(3) by auto
qed

lemma unat_of_nat_bytes:
  assumes "\<forall>b\<in>set bs. b < 256"
  shows "map unat (map of_nat bs :: byte list) = bs"
  using assms by (induction bs) (simp_all add: unat_of_nat)


lemma rstrip_nul_zeros: "rstrip_nul (s @ replicate k 0) = rstrip_nul s"
proof -
  have "dropWhile (\<lambda>c. c = 0) (replicate k (0::nat) @ rev s) = dropWhile (\<lambda>c. c = 0) (rev s)"
    by (induction k) simp_all
  then show ?thesis by (simp add: rstrip_nul_def)
qed

lemma rstrip_nul_id: "\<not> ends_with_nul s \<Longrightarrow> rstrip_nul s = s"
  by (cases s rule: rev_cases) (simp_all add: rstrip_nul_def ends_with_nul_def)

lemma rstrip_nul_clean: "\<not> ends_with_nul (rstrip_nul s)"
proof -
  have "dropWhile (\<lambda>c. c = 0) (rev s) = [] \<or> hd (dropWhile (\<lambda>c. c = 0) (rev s)) \<noteq> (0::nat)"
    using hd_dropWhile [of "\<lambda>c. c = 0" "rev s"] by blast
  then show ?thesis
    by (auto simp: rstrip_nul_def ends_with_nul_def last_rev)
qed

lemma text_roundtrip:
  assumes "fits_text k s" "\<not> ends_with_nul s"
  shows "\<exists>bs. encode_utf8 s = Inr bs
           \<and> rstrip_nul (decode_utf8_ignore (ljust k (take k bs))) = s"
proof -
  obtain nb where nb: "utf8_nat s = Some nb" "length nb \<le> k"
    using assms(1) by (auto simp: fits_text_def split: option.splits)
  have enc: "encode_utf8 s = Inr (map of_nat nb)" by (simp add: encode_utf8_def nb)
  have "map unat (ljust k (take k (map of_nat nb :: byte list)))
        = nb @ replicate (k - length nb) 0"
    using nb(2) unat_of_nat_bytes [OF utf8_nat_bytes [OF nb(1)]]
    by (simp add: ljust_def)
  then have "decode_utf8_ignore (ljust k (take k (map of_nat nb)))
             = s @ replicate (k - length nb) 0"
    by (simp add: decode_utf8_ignore_def utf8_nat_decode [OF nb(1)] decode_nat_zeros)
  then show ?thesis
    using enc assms(2) by (simp add: rstrip_nul_zeros rstrip_nul_id)
qed

lemma of_le_le32:
  assumes "w < 2 ^ 32"
  shows "of_le (le32 w) = w"
proof -
  have a: "w mod (256 * 256) = 256 * (w div 256 mod 256) + w mod 256" by (rule mod_mult2_eq)
  have b: "w mod (65536 * 256) = 65536 * (w div 65536 mod 256) + w mod 65536"
    by (rule mod_mult2_eq)
  have c: "w div 16777216 mod 256 = w div 16777216"
    using assms by (simp add: less_mult_imp_div_less)
  have d: "w = 16777216 * (w div 16777216) + w mod 16777216" by simp
  have "of_le (le32 w) = w mod 256 + 256 * (w div 256 mod 256)
          + 65536 * (w div 65536 mod 256) + 16777216 * (w div 16777216 mod 256)"
    by (simp add: of_le_def le32_def unat_of_nat)
  also have "\<dots> = w" using a b c d by simp
  finally show ?thesis .
qed

lemma int_roundtrip:
  assumes "count_ok n"
  shows "unpack_i (le32 (nat (n mod 4294967296))) = n"
proof -
  define w where "w = nat (n mod 4294967296)"
  have lt: "w < 2 ^ 32" unfolding w_def by simp
  have rd: "of_le (le32 w) = w" by (rule of_le_le32 [OF lt])
  have "(if w < 2147483648 then int w else int w - 4294967296) = n"
  proof (cases "0 \<le> n")
    case True
    then have "n mod 4294967296 = n" using assms by (simp add: count_ok_def)
    then show ?thesis using True assms unfolding w_def by (simp add: count_ok_def)
  next
    case False
    then have "(n + 4294967296) mod 4294967296 = n + 4294967296"
      using assms by (intro mod_pos_pos_trivial) (simp_all add: count_ok_def)
    moreover have "(n + 4294967296) mod 4294967296 = n mod 4294967296" by simp
    ultimately have "n mod 4294967296 = n + 4294967296" by simp
    then show ?thesis using False assms unfolding w_def by (simp add: count_ok_def)
  qed
  then show ?thesis
    unfolding unpack_i_def Let_def w_def [symmetric] rd .
qed


section \<open>The price through the binary32 field\<close>

lemma top_bit_bounds: "0 < m \<Longrightarrow> 2 ^ top_bit m \<le> m \<and> m < 2 ^ (top_bit m + 1)"
proof (induction m rule: top_bit.induct)
  case (1 m)
  show ?case
  proof (cases "m < 2")
    case True
    then show ?thesis using "1.prems" by (simp add: top_bit.simps)
  next
    case False
    then have "0 < m div 2" by simp
    then have ih: "2 ^ top_bit (m div 2) \<le> m div 2" "m div 2 < 2 ^ (top_bit (m div 2) + 1)"
      using "1.IH" False by simp_all
    have tb: "top_bit m = Suc (top_bit (m div 2))" using False by (simp add: top_bit.simps)
    show ?thesis unfolding tb using ih by simp linarith
  qed
qed

lemma top_bit_unique:
  assumes "2 ^ k \<le> m" "m < 2 ^ (k + 1)"
  shows "top_bit m = k"
proof -
  have pos: "0 < m" using assms(1) by (cases m) simp_all
  have b: "2 ^ top_bit m \<le> m" "m < 2 ^ (top_bit m + 1)" using top_bit_bounds [OF pos] by simp_all
  have 1: "k < top_bit m + 1"
  proof (rule ccontr)
    assume "\<not> k < top_bit m + 1"
    then have "(2::nat) ^ (top_bit m + 1) \<le> 2 ^ k" by (intro power_increasing) simp_all
    then show False using assms(1) b(2) by linarith
  qed
  have 2: "top_bit m < k + 1"
  proof (rule ccontr)
    assume "\<not> top_bit m < k + 1"
    then have "(2::nat) ^ (k + 1) \<le> 2 ^ top_bit m" by (intro power_increasing) simp_all
    then show False using assms(2) b(1) by linarith
  qed
  show ?thesis using 1 2 by simp
qed

text \<open>The three fields of a double put together and taken apart.\<close>

lemma f64_fields:
  fixes s e m :: nat
  assumes "e < 2048" "m < 2 ^ 52"
  shows "(s * 2 ^ 63 + e * 2 ^ 52 + m) div 2 ^ 63 = s"
    and "(s * 2 ^ 63 + e * 2 ^ 52 + m) div 2 ^ 52 mod 2048 = e"
    and "(s * 2 ^ 63 + e * 2 ^ 52 + m) mod 2 ^ 52 = m"
proof -
  have lt: "e * 2 ^ 52 + m < 2 ^ 63" using assms by simp
  have "(s * 2 ^ 63 + (e * 2 ^ 52 + m)) div 2 ^ 63 = s + (e * 2 ^ 52 + m) div 2 ^ 63"
    by (rule div_mult_self3) simp
  then show "(s * 2 ^ 63 + e * 2 ^ 52 + m) div 2 ^ 63 = s" using lt by (simp add: add.assoc)
  have x: "s * 2 ^ 63 + e * 2 ^ 52 + m = (s * 2048 + e) * 2 ^ 52 + m" by simp
  have d: "((s * 2048 + e) * 2 ^ 52 + m) div 2 ^ 52 = s * 2048 + e"
    using assms(2) by simp
  show "(s * 2 ^ 63 + e * 2 ^ 52 + m) div 2 ^ 52 mod 2048 = e"
    unfolding x d using assms(1) by simp
  have "((s * 2048 + e) * 2 ^ 52 + m) mod 2 ^ 52 = m mod 2 ^ 52"
    by (rule mod_mult_self3)
  also have "\<dots> = m" using assms(2) by (rule mod_less)
  finally show "(s * 2 ^ 63 + e * 2 ^ 52 + m) mod 2 ^ 52 = m"
    unfolding x .
qed

lemma f64_split:
  fixes x :: nat
  shows "x = x div 2 ^ 63 * 2 ^ 63 + (x div 2 ^ 52 mod 2048) * 2 ^ 52 + x mod 2 ^ 52"
proof -
  have "x mod (2 ^ 52 * 2048) = 2 ^ 52 * (x div 2 ^ 52 mod 2048) + x mod 2 ^ 52"
    by (rule mod_mult2_eq)
  moreover have "x = x div 2 ^ 63 * 2 ^ 63 + x mod 2 ^ 63" by simp
  ultimately show ?thesis by simp
qed

lemma f32_fields:
  fixes s e m :: nat
  assumes "e < 256" "m < 2 ^ 23"
  shows "(s * 2 ^ 31 + e * 2 ^ 23 + m) div 2 ^ 31 = s"
    and "(s * 2 ^ 31 + e * 2 ^ 23 + m) div 2 ^ 23 mod 256 = e"
    and "(s * 2 ^ 31 + e * 2 ^ 23 + m) mod 2 ^ 23 = m"
proof -
  have lt: "e * 2 ^ 23 + m < 2 ^ 31" using assms by simp
  have "(s * 2 ^ 31 + (e * 2 ^ 23 + m)) div 2 ^ 31 = s + (e * 2 ^ 23 + m) div 2 ^ 31"
    by (rule div_mult_self3) simp
  then show "(s * 2 ^ 31 + e * 2 ^ 23 + m) div 2 ^ 31 = s" using lt by (simp add: add.assoc)
  have x: "s * 2 ^ 31 + e * 2 ^ 23 + m = (s * 256 + e) * 2 ^ 23 + m" by simp
  have d: "((s * 256 + e) * 2 ^ 23 + m) div 2 ^ 23 = s * 256 + e"
    using assms(2) by simp
  show "(s * 2 ^ 31 + e * 2 ^ 23 + m) div 2 ^ 23 mod 256 = e"
    unfolding x d using assms(1) by simp
  have "((s * 256 + e) * 2 ^ 23 + m) mod 2 ^ 23 = m mod 2 ^ 23"
    by (rule mod_mult_self3)
  also have "\<dots> = m" using assms(2) by (rule mod_less)
  finally show "(s * 2 ^ 31 + e * 2 ^ 23 + m) mod 2 ^ 23 = m"
    unfolding x .
qed

lemma f32_split:
  fixes w :: nat
  shows "w = w div 2 ^ 31 * 2 ^ 31 + (w div 2 ^ 23 mod 256) * 2 ^ 23 + w mod 2 ^ 23"
proof -
  have "w mod (2 ^ 23 * 256) = 2 ^ 23 * (w div 2 ^ 23 mod 256) + w mod 2 ^ 23"
    by (rule mod_mult2_eq)
  moreover have "w = w div 2 ^ 31 * 2 ^ 31 + w mod 2 ^ 31" by simp
  ultimately show ?thesis by simp
qed

lemma round_shift_exact: "round_shift (q * 2 ^ k) k = q"
  by (simp add: round_shift_def Let_def)

text \<open>The two conversions in terms of the fields.\<close>

lemma f64_to_f32_fields:
  assumes "e < 2048" "m < 2 ^ 52"
  shows "f64_to_f32 (s * 2 ^ 63 + e * 2 ^ 52 + m) =
    (if e = 2047 then
          (if m = 0 then s * 2 ^ 31 + 0x7F800000
           else s * 2 ^ 31 + 0x7FC00000 + m div 2 ^ 29 mod 2 ^ 22)
        else
          (let full = (if e = 0 then m else 2 ^ 52 + m);
               e1 = (if e = 0 then 1 else e);
               bits = (if e1 \<le> 896 then round_shift full (926 - e1)
                       else (e1 - 897) * 2 ^ 23 + round_shift full 29)
           in if bits < 0x7F800000 then s * 2 ^ 31 + bits else s * 2 ^ 31 + 0x7F800000))"
  unfolding f64_to_f32_def f64_fields [OF assms] Let_def ..

lemma f32_to_f64_fields:
  assumes "e < 256" "m < 2 ^ 23"
  shows "f32_to_f64 (s * 2 ^ 31 + e * 2 ^ 23 + m) =
     (if e = 255 then
          (if m = 0 then s * 2 ^ 63 + 2047 * 2 ^ 52
           else s * 2 ^ 63 + 2047 * 2 ^ 52 + 2 ^ 51 + (m mod 2 ^ 22) * 2 ^ 29)
        else if e = 0 then
          (if m = 0 then s * 2 ^ 63
           else s * 2 ^ 63 + (top_bit m + 874) * 2 ^ 52 + (m * 2 ^ (52 - top_bit m) - 2 ^ 52))
        else s * 2 ^ 63 + (e + 896) * 2 ^ 52 + m * 2 ^ 29)"
  unfolding f32_to_f64_def f32_fields [OF assms] Let_def ..


text \<open>
  A double that is a binary32 value comes back unchanged from the conversion to
  binary32 and back.
\<close>

lemma binary32_fields_round_trip:
  assumes "e < 2048" "m < 2 ^ 52"
    and "(e = 2047 \<and> m = 0) \<or> (e = 0 \<and> m = 0)
        \<or> (897 \<le> e \<and> e \<le> 1150 \<and> m mod 2 ^ 29 = 0)
        \<or> (874 \<le> e \<and> e \<le> 896 \<and> m mod 2 ^ (926 - e) = 0)"
  shows "f32_to_f64 (f64_to_f32 (s * 2 ^ 63 + e * 2 ^ 52 + m)) = s * 2 ^ 63 + e * 2 ^ 52 + m"
proof -
  consider (inf) "e = 2047" "m = 0" | (zero) "e = 0" "m = 0"
    | (normal) "897 \<le> e" "e \<le> 1150" "m mod 2 ^ 29 = 0"
    | (sub) "874 \<le> e" "e \<le> 896" "m mod 2 ^ (926 - e) = 0"
    using assms(3) by (elim disjE conjE) blast+
  then show ?thesis
  proof cases
    case inf
    have "f64_to_f32 (s * 2 ^ 63 + e * 2 ^ 52 + m) = s * 2 ^ 31 + 255 * 2 ^ 23 + 0"
      unfolding f64_to_f32_fields [OF assms(1,2)] using inf by simp
    moreover have "f32_to_f64 (s * 2 ^ 31 + 255 * 2 ^ 23 + 0) = s * 2 ^ 63 + 2047 * 2 ^ 52"
      by (subst f32_to_f64_fields) simp_all
    ultimately show ?thesis using inf by simp
  next
    case zero
    have "f64_to_f32 (s * 2 ^ 63 + e * 2 ^ 52 + m) = s * 2 ^ 31 + 0 * 2 ^ 23 + 0"
      unfolding f64_to_f32_fields [OF assms(1,2)] using zero by (simp add: round_shift_def)
    moreover have "f32_to_f64 (s * 2 ^ 31 + 0 * 2 ^ 23 + 0) = s * 2 ^ 63"
      by (subst f32_to_f64_fields) simp_all
    ultimately show ?thesis using zero by simp
  next
    case normal
    define m' where "m' = m div 2 ^ 29"
    have mm: "m = m' * 2 ^ 29"
      using normal(3) div_mult_mod_eq [of m "2 ^ 29"] unfolding m'_def by linarith
    have m': "m' < 2 ^ 23" using assms(2) by (simp add: m'_def less_mult_imp_div_less)
    have full: "2 ^ 52 + m = (2 ^ 23 + m') * 2 ^ 29" by (simp add: mm algebra_simps)
    have rs: "round_shift (2 ^ 52 + m) 29 = 2 ^ 23 + m'"
      unfolding full by (rule round_shift_exact)
    have bits: "(e - 897) * 2 ^ 23 + (2 ^ 23 + m') = (e - 896) * 2 ^ 23 + m'"
      using normal(1) by (simp add: algebra_simps)
    have small: "(e - 896) * 2 ^ 23 + m' < 0x7F800000"
    proof -
      have "(e - 896) * 2 ^ 23 \<le> 254 * 2 ^ 23" using normal(2) by simp
      then show ?thesis using m' by simp
    qed
    have "f64_to_f32 (s * 2 ^ 63 + e * 2 ^ 52 + m) = s * 2 ^ 31 + (e - 896) * 2 ^ 23 + m'"
      unfolding f64_to_f32_fields [OF assms(1,2)] using normal(1,2) small rs bits
      by (simp add: Let_def)
    moreover have "f32_to_f64 (s * 2 ^ 31 + (e - 896) * 2 ^ 23 + m')
                   = s * 2 ^ 63 + (e - 896 + 896) * 2 ^ 52 + m' * 2 ^ 29"
      using normal(1,2) m' by (subst f32_to_f64_fields) auto
    ultimately show ?thesis using normal(1) mm by simp
  next
    case sub
    define d where "d = 926 - e"
    have d: "30 \<le> d" "d \<le> 52" "e = 926 - d" using sub(1,2) by (simp_all add: d_def)
    define q where "q = (2 ^ 52 + m) div 2 ^ d"
    have e1: "(2::nat) ^ (52 - d) * 2 ^ d = 2 ^ 52" using d(2) by (simp flip: power_add)
    have "(2 ^ (52 - d) * 2 ^ d + m) mod 2 ^ d = m mod 2 ^ d" by (rule mod_mult_self3)
    then have "(2 ^ 52 + m) mod 2 ^ d = 0" unfolding e1 using sub(3) by (simp only: d_def)
    then have full: "2 ^ 52 + m = q * 2 ^ d"
      using div_mult_mod_eq [of "2 ^ 52 + m" "2 ^ d"] unfolding q_def by linarith
    have lo: "2 ^ (52 - d) \<le> q"
    proof -
      have "2 ^ 52 \<le> q * (2::nat) ^ d" using full by simp
      then have "2 ^ (52 - d) * 2 ^ d \<le> q * (2::nat) ^ d" by (simp only: e1)
      then show ?thesis by (simp only: mult_le_cancel2) simp
    qed
    have hi: "q < 2 ^ (52 - d + 1)"
    proof -
      have e2: "(2::nat) ^ (52 - d + 1) * 2 ^ d = 2 ^ 53" using d(2) by (simp flip: power_add)
      have "q * 2 ^ d < 2 ^ 53" using full assms(2) by simp
      then have "q * 2 ^ d < 2 ^ (52 - d + 1) * (2::nat) ^ d" by (simp only: e2)
      then show ?thesis by (simp only: mult_less_cancel2)
    qed
    have tb: "top_bit q = 52 - d" by (rule top_bit_unique [OF lo hi])
    have q23: "q < 2 ^ 23"
    proof -
      have "(2::nat) ^ (52 - d + 1) \<le> 2 ^ 23" using d(1) by (intro power_increasing) simp_all
      then show ?thesis using hi by simp
    qed
    have q0: "q \<noteq> 0" using lo by (cases q) simp_all
    have rs: "round_shift (2 ^ 52 + m) d = q" unfolding full by (rule round_shift_exact)
    have "f64_to_f32 (s * 2 ^ 63 + e * 2 ^ 52 + m) = s * 2 ^ 31 + 0 * 2 ^ 23 + q"
      unfolding f64_to_f32_fields [OF assms(1,2)] using sub(1,2) q23 rs
      by (simp add: Let_def d_def [symmetric])
    moreover have "f32_to_f64 (s * 2 ^ 31 + 0 * 2 ^ 23 + q)
                   = s * 2 ^ 63 + (top_bit q + 874) * 2 ^ 52 + (q * 2 ^ (52 - top_bit q) - 2 ^ 52)"
      using q23 q0 by (subst f32_to_f64_fields) auto
    moreover have "52 - (52 - d) = d" "52 - d + 874 = e" using d by simp_all
    ultimately show ?thesis using full by (simp add: tb)
  qed
qed

lemma binary32_round_trip:
  assumes "is_binary32 x"
  shows "f32_to_f64 (f64_to_f32 (unat x)) = unat x"
proof -
  define s where "s = unat x div 2 ^ 63"
  define e where "e = unat x div 2 ^ 52 mod 2048"
  define m where "m = unat x mod 2 ^ 52"
  have x: "unat x = s * 2 ^ 63 + e * 2 ^ 52 + m"
    unfolding s_def e_def m_def by (rule f64_split)
  have e: "e < 2048" and m: "m < 2 ^ 52" by (simp_all add: e_def m_def)
  have c: "(e = 2047 \<and> m = 0) \<or> (e = 0 \<and> m = 0)
        \<or> (897 \<le> e \<and> e \<le> 1150 \<and> m mod 2 ^ 29 = 0)
        \<or> (874 \<le> e \<and> e \<le> 896 \<and> m mod 2 ^ (926 - e) = 0)"
    using assms unfolding is_binary32_def Let_def e_def m_def .
  show ?thesis unfolding x by (rule binary32_fields_round_trip [OF e m c])
qed

lemma binary32_not_nan:
  assumes "is_binary32 x"
  shows "\<not> f64_nan x"
proof -
  define e where "e = unat x div 2 ^ 52 mod 2048"
  define m where "m = unat x mod 2 ^ 52"
  have "unat x mod (2 ^ 52 * 2048) = 2 ^ 52 * e + m"
    unfolding e_def m_def by (rule mod_mult2_eq)
  then have mag: "unat x mod 2 ^ 63 = e * 2 ^ 52 + m" by simp
  have m: "m < 2 ^ 52" by (simp add: m_def)
  have c: "(e = 2047 \<and> m = 0) \<or> e \<le> 1150"
    using assms unfolding is_binary32_def Let_def e_def m_def by auto
  then show ?thesis
  proof
    assume "e = 2047 \<and> m = 0"
    then show ?thesis unfolding f64_nan_def mag by simp
  next
    assume "e \<le> 1150"
    then have "e * 2 ^ 52 \<le> 1150 * 2 ^ 52" by simp
    then show ?thesis unfolding f64_nan_def mag using m by simp
  qed
qed

lemma f64_to_f32_bound:
  assumes "x < 2 ^ 64"
  shows "f64_to_f32 x < 2 ^ 32"
proof -
  have s: "x div 2 ^ 63 \<le> 1" using assms by (simp add: less_mult_imp_div_less)
  then have s31: "x div 2 ^ 63 * 2 ^ 31 \<le> 2 ^ 31" by simp
  have "x mod 2 ^ 52 div 2 ^ 29 mod 2 ^ 22 < (2::nat) ^ 22" by simp
  then show ?thesis
    using s31 unfolding f64_to_f32_def Let_def
    by (auto split: if_splits)
qed

lemma unpack_pack_f: "unpack_f (pack_f x) = of_nat (f32_to_f64 (f64_to_f32 (unat x)))"
proof -
  have "unat x < 2 ^ 64" using unsigned_less [of x] by simp
  then have "f64_to_f32 (unat x) < 2 ^ 32" by (rule f64_to_f32_bound)
  then show ?thesis by (simp add: unpack_f_def pack_f_def of_le_le32)
qed

lemma float_roundtrip:
  assumes "is_binary32 x"
  shows "unpack_f (pack_f x) = x"
  by (simp add: unpack_pack_f binary32_round_trip [OF assms])

section \<open>Encoding and decoding a record\<close>

lemma decode_fields_block:
  assumes "length a = 20" "length b = 4" "length c = 4" "length d = 15"
  shows "decode_fields (a @ b @ c @ d)
         = (rstrip_nul (decode_utf8_ignore a), unpack_i b, unpack_f c,
            rstrip_nul (decode_utf8_ignore d))"
  using assms by (simp add: decode_fields_def)

lemma record_roundtrip:
  assumes "fits_text 20 name" "\<not> ends_with_nul name"
    and "fits_text 15 category" "\<not> ends_with_nul category"
    and "count_ok count" "is_binary32 price"
  shows "\<exists>block. pack_record name count price category = Inr block
           \<and> unpack_record block = Inr (name, count, price, category)
           \<and> decode_fields block = (name, count, price, category)"
proof -
  obtain nb where nb: "encode_utf8 name = Inr nb"
      "rstrip_nul (decode_utf8_ignore (ljust 20 (take 20 nb))) = name"
    using text_roundtrip [OF assms(1,2)] by blast
  obtain cb where cb: "encode_utf8 category = Inr cb"
      "rstrip_nul (decode_utf8_ignore (ljust 15 (take 15 cb))) = category"
    using text_roundtrip [OF assms(3,4)] by blast
  define block where "block = ljust 20 (take 20 nb) @ le32 (nat (count mod 4294967296))
                              @ pack_f price @ ljust 15 (take 15 cb)"
  have pk: "pack_record name count price category = Inr block"
    using assms(5) by (simp add: pack_record_def nb(1) cb(1) pack_i_cases block_def)
  have dec: "decode_fields block = (name, count, price, category)"
    unfolding block_def
    by (subst decode_fields_block)
       (simp_all add: length_ljust_take length_le32 length_pack_f nb(2) cb(2)
                      float_roundtrip [OF assms(6)] int_roundtrip [OF assms(5)])
  have "length block = RECORD_SIZE"
    by (simp add: block_def length_ljust_take length_le32 length_pack_f RECORD_SIZE_43)
  then show ?thesis using pk dec by (simp add: unpack_record_def)
qed

lemma record_eq_refl:
  assumes "is_binary32 price"
  shows "record_eq (name, count, price, category) (name, count, price, category)"
  using binary32_not_nan [OF assms] by (simp add: record_eq_def float_eq_def)

text \<open>
  Claim C3, as stated, covers every name of at most 20 bytes and every price that the
  field holds. The two-character name made of the letter a and the character U+0000
  encodes to two bytes, but the decoder strips the trailing NUL: the record comes back
  with the one-character name. A quiet NaN is held by the field and comes back bit for
  bit, but \<^verbatim>\<open>==\<close> is false on a NaN, so the decoded record does not compare equal to
  the original.
\<close>

theorem round_trip_failures:
  "fits_text 20 [97, 0] \<and> fits_text 15 [] \<and> count_ok 0
   \<and> is_binary32 0x3FF0000000000000
   \<and> pack_record [97, 0] 0 0x3FF0000000000000 []
       = Inr ([97] @ replicate 19 0 @ [0, 0, 0, 0] @ [0, 0, 128, 63] @ replicate 15 0)
   \<and> unpack_record ([97] @ replicate 19 0 @ [0, 0, 0, 0] @ [0, 0, 128, 63] @ replicate 15 0)
       = Inr ([97], 0, 0x3FF0000000000000, [])
   \<and> \<not> record_eq ([97], 0, 0x3FF0000000000000, []) ([97, 0], 0, 0x3FF0000000000000, [])
   \<and> pack_record [] 0 0x7FF8000000000000 []
       = Inr (replicate 20 0 @ [0, 0, 0, 0] @ [0, 0, 192, 127] @ replicate 15 0)
   \<and> unpack_record (replicate 20 0 @ [0, 0, 0, 0] @ [0, 0, 192, 127] @ replicate 15 0)
       = Inr ([], 0, 0x7FF8000000000000, [])
   \<and> \<not> record_eq ([], 0, 0x7FF8000000000000, []) ([], 0, 0x7FF8000000000000, [])"
proof -
  have u: "unat (0x3FF0000000000000 :: 64 word) = 0x3FF0000000000000"
      "unat (0x7FF8000000000000 :: 64 word) = 0x7FF8000000000000" by simp_all
  have f: "f64_to_f32 0x3FF0000000000000 = 0x3F800000"
      "f64_to_f32 0x7FF8000000000000 = 0x7FC00000"
    by (simp_all add: f64_to_f32_def round_shift_def Let_def)
  have g: "f32_to_f64 0x3F800000 = 0x3FF0000000000000"
      "f32_to_f64 0x7FC00000 = 0x7FF8000000000000"
    by (simp_all add: f32_to_f64_def Let_def)
  have fits: "fits_text 20 [97, 0]" "fits_text 15 []" "count_ok 0"
      "is_binary32 0x3FF0000000000000"
    by (simp_all add: fits_text_def utf8_char_def count_ok_def is_binary32_def u Let_def)
  have pk: "pack_record [97, 0] 0 0x3FF0000000000000 []
       = Inr ([97] @ replicate 19 0 @ [0, 0, 0, 0] @ [0, 0, 128, 63] @ replicate 15 0)"
    by (simp add: pack_record_def encode_utf8_def utf8_char_def pack_i_def pack_f_def u f
                  le32_def ljust_def replicate_num)
  have un: "unpack_record ([97] @ replicate 19 0 @ [0, 0, 0, 0] @ [0, 0, 128, 63]
                           @ replicate 15 0)
       = Inr ([97], 0, 0x3FF0000000000000, [])"
    by (simp add: unpack_record_def RECORD_SIZE_43 decode_fields_def decode_utf8_ignore_def
                  decode_nat_zeros rstrip_nul_def unpack_i_def unpack_f_def of_le_def g
                  replicate_num)
  have ne: "\<not> record_eq ([97], 0, 0x3FF0000000000000, []) ([97, 0], 0, 0x3FF0000000000000, [])"
    by (simp add: record_eq_def)
  have pk2: "pack_record [] 0 0x7FF8000000000000 []
       = Inr (replicate 20 0 @ [0, 0, 0, 0] @ [0, 0, 192, 127] @ replicate 15 0)"
    by (simp add: pack_record_def encode_utf8_def pack_i_def pack_f_def u f
                  le32_def ljust_def replicate_num)
  have un2: "unpack_record (replicate 20 0 @ [0, 0, 0, 0] @ [0, 0, 192, 127] @ replicate 15 0)
       = Inr ([], 0, 0x7FF8000000000000, [])"
    by (simp add: unpack_record_def RECORD_SIZE_43 decode_fields_def decode_utf8_ignore_def
                  decode_nat_zeros rstrip_nul_def unpack_i_def unpack_f_def of_le_def g
                  replicate_num)
  have ne2: "\<not> record_eq ([], 0, 0x7FF8000000000000, []) ([], 0, 0x7FF8000000000000, [])"
    by (simp add: record_eq_def float_eq_def f64_nan_def u)
  show ?thesis using fits pk un ne pk2 un2 ne2 by simp
qed

text \<open>
  Claim C3, amended: for every record whose name and category encode to at most 20 and
  15 UTF-8 bytes and do not end with the character U+0000, whose count fits in a signed
  32-bit integer, and whose price is a binary32 value (an infinity, a zero, or a finite
  double that binary32 represents exactly; no NaN), decoding the encoded record gives
  the record back: all four fields are the originals, the price bit for bit, and the
  decoded record compares equal to the original.
\<close>

theorem fitting_record_round_trip:
  assumes "fits_text 20 name" "\<not> ends_with_nul name"
    and "fits_text 15 category" "\<not> ends_with_nul category"
    and "count_ok count" "is_binary32 price"
  shows "\<exists>block. pack_record name count price category = Inr block
           \<and> unpack_record block = Inr (name, count, price, category)
           \<and> record_eq (decode_fields block) (name, count, price, category)"
  using record_roundtrip [OF assms] record_eq_refl [OF assms(6)] by auto

theorem fitting_record_round_trip_witness:
  "\<exists>block. pack_record (str_of ''apple'') 10 0x400C000000000000 (str_of ''fruit'') = Inr block
     \<and> unpack_record block
         = Inr (str_of ''apple'', 10, 0x400C000000000000, str_of ''fruit'')
     \<and> record_eq (decode_fields block)
          (str_of ''apple'', 10, 0x400C000000000000, str_of ''fruit'')"
proof -
  have u: "unat (0x400C000000000000 :: 64 word) = 0x400C000000000000" by simp
  have h: "fits_text 20 (str_of ''apple'')" "\<not> ends_with_nul (str_of ''apple'')"
      "fits_text 15 (str_of ''fruit'')" "\<not> ends_with_nul (str_of ''fruit'')"
      "count_ok 10" "is_binary32 0x400C000000000000"
    by (simp_all add: fits_text_def ends_with_nul_def str_of_def utf8_char_def count_ok_def
                      is_binary32_def u Let_def)
  show ?thesis by (rule fitting_record_round_trip [OF h])
qed

section \<open>Listing after an insertion or a deletion\<close>

lemma print_db_consistent:
  assumes "length bytes = n * RECORD_SIZE"
  shows "print_db_from_file (Some bytes)
         = Header # map (\<lambda>i. RecordLine (Suc i) (decode_fields (slot i bytes))) [0..<n]"
  using assms read_loop_records [of bytes n 0 "\<lambda>r. True" 1]
  by (simp add: print_db_from_file_def all_lines RECORD_SIZE_43)

lemma lines_of_record_lines:
  "lines_of (map (\<lambda>i. RecordLine (f i) (g i)) xs) = map (\<lambda>i. (f i, g i)) xs"
  by (induction xs) simp_all

lemma scan_records_consistent:
  assumes "length bytes = n * RECORD_SIZE"
  shows "scan_records bytes = map (\<lambda>i. decode_fields (slot i bytes)) [0..<n]"
  by (simp add: scan_records_def print_db_consistent [OF assms] lines_of_record_lines o_def)

lemma print_db_numbered:
  assumes "length bytes = n * RECORD_SIZE"
  shows "print_db_from_file (Some bytes)
         = Header # map (\<lambda>(i, r). RecordLine i r) (zip [1..<n + 1] (scan_records bytes))"
proof -
  have "map (\<lambda>(i, r). RecordLine i r)
            (zip [1..<n + 1] (map (\<lambda>i. decode_fields (slot i bytes)) [0..<n]))
        = map (\<lambda>i. RecordLine (Suc i) (decode_fields (slot i bytes))) [0..<n]"
    by (rule nth_equalityI) (simp_all del: upt_Suc)
  then show ?thesis
    by (simp add: print_db_consistent [OF assms] scan_records_consistent [OF assms])
qed

text \<open>The slots of a file into which a block was inserted at slot \<open>j\<close>.\<close>

lemma slot_inserted:
  assumes "length bytes = n * RECORD_SIZE" "j \<le> n" "length block = RECORD_SIZE"
  shows "slot i (take (j * RECORD_SIZE) bytes @ block @ drop (j * RECORD_SIZE) bytes)
         = (if i < j then slot i bytes else if i = j then block else slot (i - 1) bytes)"
proof -
  have len: "length bytes = n * 43" "length block = 43"
    using assms by (simp_all add: RECORD_SIZE_43)
  have lt: "length (take (j * 43) bytes) = j * 43" using len assms(2) by simp
  consider "i < j" | "i = j" | "j < i" by linarith
  then show ?thesis
  proof cases
    case 1
    then have "i * 43 + 43 \<le> j * 43" by simp
    then show ?thesis using 1 lt by (simp add: slot_def RECORD_SIZE_43 take_drop)
  next
    case 2
    then show ?thesis using lt len by (simp add: slot_def RECORD_SIZE_43)
  next
    case 3
    then have "i * 43 - j * 43 - 43 + j * 43 = (i - 1) * 43" by simp
    moreover have "j * 43 + 43 \<le> i * 43" using 3 by simp
    ultimately show ?thesis using 3 lt len by (simp add: slot_def RECORD_SIZE_43)
  qed
qed

text \<open>The slots of a file from which the slot \<open>j\<close> was cut out.\<close>

lemma slot_deleted:
  assumes "length bytes = n * RECORD_SIZE" "j < n"
  shows "slot i (take (j * RECORD_SIZE) bytes @ drop ((j + 1) * RECORD_SIZE) bytes)
         = (if i < j then slot i bytes else slot (i + 1) bytes)"
proof -
  have len: "length bytes = n * 43" using assms by (simp add: RECORD_SIZE_43)
  have lt: "length (take (j * 43) bytes) = j * 43" using len assms(2) by simp
  show ?thesis
  proof (cases "i < j")
    case True
    then have "i * 43 + 43 \<le> j * 43" by simp
    then show ?thesis using True lt by (simp add: slot_def RECORD_SIZE_43 take_drop)
  next
    case False
    then have "i * 43 - j * 43 + (43 + j * 43) = 43 + i * 43" by simp
    then show ?thesis using False lt by (simp add: slot_def RECORD_SIZE_43 add.commute)
  qed
qed

lemma scan_records_inserted:
  assumes "length bytes = n * RECORD_SIZE" "j \<le> n" "length block = RECORD_SIZE"
  shows "scan_records (take (j * RECORD_SIZE) bytes @ block @ drop (j * RECORD_SIZE) bytes)
         = take j (scan_records bytes) @ [decode_fields block] @ drop j (scan_records bytes)"
proof -
  let ?new = "take (j * RECORD_SIZE) bytes @ block @ drop (j * RECORD_SIZE) bytes"
  have len': "length ?new = (n + 1) * RECORD_SIZE"
    using assms by (simp add: RECORD_SIZE_43)
  show ?thesis
    unfolding scan_records_consistent [OF len'] scan_records_consistent [OF assms(1)]
  proof (rule nth_equalityI)
    show "length (map (\<lambda>i. decode_fields (slot i ?new)) [0..<n + 1])
          = length (take j (map (\<lambda>i. decode_fields (slot i bytes)) [0..<n])
                    @ [decode_fields block]
                    @ drop j (map (\<lambda>i. decode_fields (slot i bytes)) [0..<n]))"
      using assms(2) by simp
  next
    fix i
    assume "i < length (map (\<lambda>i. decode_fields (slot i ?new)) [0..<n + 1])"
    then have i: "i < n + 1" by simp
    consider "i < j" | "i = j" | "j < i" by linarith
    then show "map (\<lambda>i. decode_fields (slot i ?new)) [0..<n + 1] ! i
               = (take j (map (\<lambda>i. decode_fields (slot i bytes)) [0..<n])
                  @ [decode_fields block]
                  @ drop j (map (\<lambda>i. decode_fields (slot i bytes)) [0..<n])) ! i"
    proof cases
      case 1
      then show ?thesis
        using i assms(2) slot_inserted [OF assms, of i]
        by (simp add: nth_append del: upt_Suc)
    next
      case 2
      then show ?thesis
        using i assms(2) slot_inserted [OF assms, of i]
        by (simp add: nth_append del: upt_Suc)
    next
      case 3
      then have "j + (i - Suc j) = i - 1" by simp
      then show ?thesis
        using 3 i assms(2) slot_inserted [OF assms, of i]
        by (simp add: nth_append nth_Cons' del: upt_Suc)
    qed
  qed
qed

lemma scan_records_deleted:
  assumes "length bytes = n * RECORD_SIZE" "j < n"
  shows "scan_records (take (j * RECORD_SIZE) bytes @ drop ((j + 1) * RECORD_SIZE) bytes)
         = take j (scan_records bytes) @ drop (j + 1) (scan_records bytes)"
proof -
  let ?new = "take (j * RECORD_SIZE) bytes @ drop ((j + 1) * RECORD_SIZE) bytes"
  have len': "length ?new = (n - 1) * RECORD_SIZE"
    using assms by (simp add: RECORD_SIZE_43 algebra_simps)
  show ?thesis
    unfolding scan_records_consistent [OF len'] scan_records_consistent [OF assms(1)]
  proof (rule nth_equalityI)
    show "length (map (\<lambda>i. decode_fields (slot i ?new)) [0..<n - 1])
          = length (take j (map (\<lambda>i. decode_fields (slot i bytes)) [0..<n])
                    @ drop (j + 1) (map (\<lambda>i. decode_fields (slot i bytes)) [0..<n]))"
      using assms(2) by simp
  next
    fix i
    assume "i < length (map (\<lambda>i. decode_fields (slot i ?new)) [0..<n - 1])"
    then have i: "i < n - 1" by simp
    show "map (\<lambda>i. decode_fields (slot i ?new)) [0..<n - 1] ! i
               = (take j (map (\<lambda>i. decode_fields (slot i bytes)) [0..<n])
                  @ drop (j + 1) (map (\<lambda>i. decode_fields (slot i bytes)) [0..<n])) ! i"
    proof (cases "i < j")
      case True
      then show ?thesis
        using i assms(2) slot_deleted [OF assms, of i]
        by (simp add: nth_append del: upt_Suc)
    next
      case False
      then have "Suc (j + (i - j)) = i + 1" by simp
      then show ?thesis
        using False i assms(2) slot_deleted [OF assms, of i]
        by (simp add: nth_append del: upt_Suc)
    qed
  qed
qed

lemma insert_file:
  assumes "length bytes = n * RECORD_SIZE" "1 \<le> p" "p \<le> int n + 1"
    and "pack_record name count price category = Inr block"
  shows "insert_record_at (Some bytes) p name count price category
         = ([if p = int n + 1 then Appended else Inserted p],
            Some (take ((nat p - 1) * RECORD_SIZE) bytes @ block
                  @ drop ((nat p - 1) * RECORD_SIZE) bytes))"
proof -
  have blk: "length block = RECORD_SIZE" by (rule pack_record_length [OF assms(4)])
  have size: "length bytes mod RECORD_SIZE = 0" "length bytes div RECORD_SIZE = n"
    using assms(1) by (simp_all add: RECORD_SIZE_43)
  show ?thesis
  proof (cases "p = int n + 1")
    case True
    then have "nat p - 1 = n" by simp
    then show ?thesis
      using True assms(1,2,4) size
      by (simp add: insert_record_at_def Let_def write_at_def)
  next
    case False
    then have j: "nat p - 1 < n" using assms(2,3) by simp
    show ?thesis
      using False assms(2,3,4) size insert_result [OF assms(1) j blk]
      by (simp add: insert_record_at_def Let_def)
  qed
qed

lemma scan_records_single:
  assumes "pack_record name count price category = Inr block"
  shows "scan_records block = [decode_fields block]"
proof -
  have blk: "length block = RECORD_SIZE" by (rule pack_record_length [OF assms])
  have e: "length ([] :: byte list) = 0 * RECORD_SIZE" by simp
  have "scan_records ([] :: byte list) = []" using scan_records_consistent [OF e] by simp
  then show ?thesis using scan_records_inserted [OF e le_refl blk] by simp
qed

lemma append_to_empty:
  assumes "pack_record name count price category = Inr block"
  shows "insert_record_at (Some []) 1 name count price category = ([Appended], Some block)"
  using insert_file [of "[]" 0 1 name count price category block] assms by simp

text \<open>
  Claim C1, as stated, covers every record \<open>r\<close> and wants \<open>r\<close> itself at position
  \<open>p\<close> of the listing. Five insertions show what goes wrong.
  \<^item> Into a store of one record, a record with the count \<open>-2^31 - 1\<close>: \<^verbatim>\<open>pack_record\<close>
    raises \<^verbatim>\<open>struct.error\<close>, and the file keeps its length.
  \<^item> Into the empty store, a record whose name is the surrogate U+D800:
    \<^verbatim>\<open>pack_record\<close> raises \<^verbatim>\<open>UnicodeEncodeError\<close>, and the file stays empty.
  \<^item> Into the empty store, a record whose name is the letter a followed by U+0000:
    the listing shows the name without the NUL.
  \<^item> Into the empty store, a record whose name is 21 times the letter a: the listing
    shows 20 letters.
  \<^item> Into the empty store, a record with the price 0.1, which is no binary32 value:
    the listing shows the price 0.100000001490116119384765625.
\<close>

theorem insert_then_scan_failures:
  "insert_record_at (Some (replicate 43 0)) 1 [] (- 2147483649) 0 []
     = ([Uncaught StructError], Some (replicate 43 0))
   \<and> insert_record_at (Some []) 1 [55296] 0 0 [] = ([Uncaught UnicodeEncodeError], Some [])
   \<and> insert_record_at (Some []) 1 [97, 0] 1 0x3FF0000000000000 [98]
       = ([Appended],
          Some ([97] @ replicate 19 0 @ [1, 0, 0, 0] @ [0, 0, 128, 63] @ [98] @ replicate 14 0))
   \<and> scan_records ([97] @ replicate 19 0 @ [1, 0, 0, 0] @ [0, 0, 128, 63] @ [98]
                     @ replicate 14 0)
       = [([97], 1, 0x3FF0000000000000, [98])]
   \<and> \<not> record_eq ([97], 1, 0x3FF0000000000000, [98]) ([97, 0], 1, 0x3FF0000000000000, [98])
   \<and> insert_record_at (Some []) 1 (replicate 21 97) 1 0x3FF0000000000000 [98]
       = ([Appended],
          Some (replicate 20 97 @ [1, 0, 0, 0] @ [0, 0, 128, 63] @ [98] @ replicate 14 0))
   \<and> scan_records (replicate 20 97 @ [1, 0, 0, 0] @ [0, 0, 128, 63] @ [98] @ replicate 14 0)
       = [(replicate 20 97, 1, 0x3FF0000000000000, [98])]
   \<and> \<not> record_eq (replicate 20 97, 1, 0x3FF0000000000000, [98])
                    (replicate 21 97, 1, 0x3FF0000000000000, [98])
   \<and> insert_record_at (Some []) 1 [97] 1 0x3FB999999999999A [98]
       = ([Appended],
          Some ([97] @ replicate 19 0 @ [1, 0, 0, 0] @ [205, 204, 204, 61] @ [98]
                @ replicate 14 0))
   \<and> scan_records ([97] @ replicate 19 0 @ [1, 0, 0, 0] @ [205, 204, 204, 61] @ [98]
                     @ replicate 14 0)
       = [([97], 1, 0x3FB99999A0000000, [98])]
   \<and> \<not> record_eq ([97], 1, 0x3FB99999A0000000, [98]) ([97], 1, 0x3FB999999999999A, [98])"
proof -
  have u: "unat (0x3FF0000000000000 :: 64 word) = 0x3FF0000000000000"
      "unat (0x3FB999999999999A :: 64 word) = 0x3FB999999999999A"
      "unat (0x3FB99999A0000000 :: 64 word) = 0x3FB99999A0000000" by simp_all
  have f: "f64_to_f32 0x3FF0000000000000 = 0x3F800000"
      "f64_to_f32 0x3FB999999999999A = 0x3DCCCCCD"
    by (simp_all add: f64_to_f32_def round_shift_def Let_def)
  have g: "f32_to_f64 0x3F800000 = 0x3FF0000000000000"
      "f32_to_f64 0x3DCCCCCD = 0x3FB99999A0000000"
    by (simp_all add: f32_to_f64_def Let_def)
  have c1: "insert_record_at (Some (replicate 43 0)) 1 [] (- 2147483649) 0 []
     = ([Uncaught StructError], Some (replicate 43 0))"
    by (simp add: insert_record_at_def Let_def RECORD_SIZE_43 pack_record_cases text_ok_def
                  count_ok_def)
  have c2: "insert_record_at (Some []) 1 [55296] 0 0 [] = ([Uncaught UnicodeEncodeError], Some [])"
    by (simp add: insert_record_at_def Let_def RECORD_SIZE_43 pack_record_cases text_ok_def)
  have p3: "pack_record [97, 0] 1 0x3FF0000000000000 [98]
       = Inr ([97] @ replicate 19 0 @ [1, 0, 0, 0] @ [0, 0, 128, 63] @ [98] @ replicate 14 0)"
    by (simp add: pack_record_def encode_utf8_def utf8_char_def pack_i_def pack_f_def u f
                  le32_def ljust_def replicate_num)
  have d3: "decode_fields ([97] @ replicate 19 0 @ [1, 0, 0, 0] @ [0, 0, 128, 63] @ [98]
                           @ replicate 14 0)
       = ([97], 1, 0x3FF0000000000000, [98])"
    by (simp add: decode_fields_def decode_utf8_ignore_def
                  decode_nat_zeros rstrip_nul_def unpack_i_def unpack_f_def of_le_def g
                  replicate_num)
  have n3: "\<not> record_eq ([97], 1, 0x3FF0000000000000, [98])
                        ([97, 0], 1, 0x3FF0000000000000, [98])"
    by (simp add: record_eq_def)
  have p4: "pack_record (replicate 21 97) 1 0x3FF0000000000000 [98]
       = Inr (replicate 20 97 @ [1, 0, 0, 0] @ [0, 0, 128, 63] @ [98] @ replicate 14 0)"
    by (simp add: pack_record_def encode_utf8_def utf8_char_def pack_i_def pack_f_def u f
                  le32_def ljust_def replicate_num)
  have d4: "decode_fields (replicate 20 97 @ [1, 0, 0, 0] @ [0, 0, 128, 63] @ [98]
                           @ replicate 14 0)
       = (replicate 20 97, 1, 0x3FF0000000000000, [98])"
    by (simp add: decode_fields_def decode_utf8_ignore_def
                  decode_nat_zeros rstrip_nul_def unpack_i_def unpack_f_def of_le_def g
                  replicate_num)
  have n4: "\<not> record_eq (replicate 20 97, 1, 0x3FF0000000000000, [98])
                        (replicate 21 97, 1, 0x3FF0000000000000, [98])"
    by (simp add: record_eq_def replicate_num)
  have p5: "pack_record [97] 1 0x3FB999999999999A [98]
       = Inr ([97] @ replicate 19 0 @ [1, 0, 0, 0] @ [205, 204, 204, 61] @ [98]
              @ replicate 14 0)"
    by (simp add: pack_record_def encode_utf8_def utf8_char_def pack_i_def pack_f_def u f
                  le32_def ljust_def replicate_num)
  have d5: "decode_fields ([97] @ replicate 19 0 @ [1, 0, 0, 0] @ [205, 204, 204, 61] @ [98]
                           @ replicate 14 0)
       = ([97], 1, 0x3FB99999A0000000, [98])"
    by (simp add: decode_fields_def decode_utf8_ignore_def
                  decode_nat_zeros rstrip_nul_def unpack_i_def unpack_f_def of_le_def g
                  replicate_num)
  have n5: "\<not> record_eq ([97], 1, 0x3FB99999A0000000, [98])
                        ([97], 1, 0x3FB999999999999A, [98])"
    by (simp add: record_eq_def float_eq_def f64_key_def u)
  show ?thesis
    using c1 c2 append_to_empty [OF p3] scan_records_single [OF p3] d3 n3
          append_to_empty [OF p4] scan_records_single [OF p4] d4 n4
          append_to_empty [OF p5] scan_records_single [OF p5] d5 n5
    by simp
qed

text \<open>
  Claim C1, amended: on a consistent store of \<open>n\<close> records, inserting at a position
  \<open>p\<close> from 1 to \<open>n + 1\<close> a record whose texts hold no surrogate and whose count lies
  in the signed 32-bit range makes the file exactly 43 bytes longer. The listing of the
  new file shows \<open>n + 1\<close> records at the positions 1 to \<open>n + 1\<close> and nothing else: at
  position \<open>p\<close> the decoded block of the new record; at every position below \<open>p\<close> the
  record that was there before; and at every position \<open>q + 1\<close> with \<open>p \<le> q \<le> n\<close> the
  record that was at position \<open>q\<close>. The record at position \<open>p\<close> is the inserted record
  itself, equal to it field by field, when its name and category encode to at most 20
  and 15 bytes and do not end with U+0000 and its price is a binary32 value (no NaN).
\<close>

theorem insert_then_scan:
  assumes "length bytes = n * RECORD_SIZE" "1 \<le> p" "p \<le> int n + 1"
    and "text_ok name" "text_ok category" "count_ok count"
  shows "\<exists>block bytes'.
      pack_record name count price category = Inr block
    \<and> insert_record_at (Some bytes) p name count price category
        = ([if p = int n + 1 then Appended else Inserted p], Some bytes')
    \<and> length bytes' = length bytes + 43
    \<and> print_db_from_file (Some bytes')
        = Header # map (\<lambda>(i, r). RecordLine i r) (zip [1..<n + 2] (scan_records bytes'))
    \<and> length (scan_records bytes) = n
    \<and> length (scan_records bytes') = n + 1
    \<and> scan_records bytes' = take (nat p - 1) (scan_records bytes) @ [decode_fields block]
                             @ drop (nat p - 1) (scan_records bytes)
    \<and> scan_records bytes' ! (nat p - 1) = decode_fields block
    \<and> (\<forall>q. 1 \<le> q \<and> q < nat p \<longrightarrow>
           scan_records bytes' ! (q - 1) = scan_records bytes ! (q - 1))
    \<and> (\<forall>q. nat p \<le> q \<and> q \<le> n \<longrightarrow> scan_records bytes' ! q = scan_records bytes ! (q - 1))
    \<and> (fits_text 20 name \<and> \<not> ends_with_nul name \<and> fits_text 15 category
        \<and> \<not> ends_with_nul category \<and> is_binary32 price \<longrightarrow>
          scan_records bytes' ! (nat p - 1) = (name, count, price, category)
          \<and> record_eq (scan_records bytes' ! (nat p - 1)) (name, count, price, category))"
proof -
  obtain block where pk: "pack_record name count price category = Inr block"
    using assms(4-6) by (simp add: pack_record_cases)
  have blk: "length block = RECORD_SIZE" by (rule pack_record_length [OF pk])
  define j where "j = nat p - 1"
  have j: "j \<le> n" using assms(2,3) by (simp add: j_def)
  define bytes' where "bytes' = take (j * RECORD_SIZE) bytes @ block @ drop (j * RECORD_SIZE) bytes"
  define rs where "rs = scan_records bytes"
  have ins: "insert_record_at (Some bytes) p name count price category
        = ([if p = int n + 1 then Appended else Inserted p], Some bytes')"
    unfolding bytes'_def j_def by (rule insert_file [OF assms(1-3) pk])
  have len': "length bytes' = (n + 1) * RECORD_SIZE"
    using assms(1) j blk by (simp add: bytes'_def RECORD_SIZE_43)
  then have len43: "length bytes' = length bytes + 43"
    using assms(1) by (simp add: RECORD_SIZE_43)
  have pr: "print_db_from_file (Some bytes')
        = Header # map (\<lambda>(i, r). RecordLine i r) (zip [1..<n + 2] (scan_records bytes'))"
    using print_db_numbered [OF len'] by simp
  have lrs: "length rs = n"
    by (simp add: rs_def scan_records_consistent [OF assms(1)])
  have lrs': "length (scan_records bytes') = n + 1"
    by (simp add: scan_records_consistent [OF len'])
  have eq: "scan_records bytes' = take j rs @ [decode_fields block] @ drop j rs"
    unfolding bytes'_def rs_def by (rule scan_records_inserted [OF assms(1) j blk])
  have at_p: "scan_records bytes' ! j = decode_fields block"
    using j lrs by (simp add: eq nth_append)
  have below: "\<forall>q. 1 \<le> q \<and> q < nat p \<longrightarrow> scan_records bytes' ! (q - 1) = rs ! (q - 1)"
    using j lrs by (auto simp: eq nth_append j_def)
  have above: "\<forall>q. nat p \<le> q \<and> q \<le> n \<longrightarrow> scan_records bytes' ! q = rs ! (q - 1)"
  proof (intro allI impI)
    fix q
    assume q: "nat p \<le> q \<and> q \<le> n"
    moreover have "1 \<le> nat p" using assms(2) by simp
    ultimately have "j < q" "j + (q - Suc j) = q - 1" by (auto simp: j_def)
    then show "scan_records bytes' ! q = rs ! (q - 1)"
      using q j lrs by (simp add: eq nth_append nth_Cons')
  qed
  have fit: "fits_text 20 name \<and> \<not> ends_with_nul name \<and> fits_text 15 category
        \<and> \<not> ends_with_nul category \<and> is_binary32 price \<longrightarrow>
          scan_records bytes' ! j = (name, count, price, category)
          \<and> record_eq (scan_records bytes' ! j) (name, count, price, category)"
    unfolding at_p
    using record_roundtrip [of name category count price] assms(6) pk
          record_eq_refl [of price name count category] by auto
  show ?thesis
    using pk ins len43 pr lrs lrs' eq at_p below above fit
    unfolding rs_def j_def by blast
qed

theorem insert_then_scan_witness:
  "\<exists>block bytes'.
      pack_record [97] 1 0x400C000000000000 [98] = Inr block
    \<and> insert_record_at (Some (replicate 43 0)) 1 [97] 1 0x400C000000000000 [98]
        = ([Inserted 1], Some bytes')
    \<and> length bytes' = 86
    \<and> scan_records bytes'
        = [([97], 1, 0x400C000000000000, [98])] @ scan_records (replicate 43 0)"
proof -
  have u: "unat (0x400C000000000000 :: 64 word) = 0x400C000000000000" by simp
  have h: "length (replicate 43 (0 :: byte)) = 1 * RECORD_SIZE" "(1 :: int) \<le> 1"
      "(1 :: int) \<le> int 1 + 1" "text_ok [97]" "text_ok [98]" "count_ok 1"
    by (simp_all add: RECORD_SIZE_43 text_ok_def count_ok_def)
  have fit: "fits_text 20 [97]" "\<not> ends_with_nul [97]" "fits_text 15 [98]"
      "\<not> ends_with_nul [98]" "is_binary32 0x400C000000000000"
    by (simp_all add: fits_text_def ends_with_nul_def utf8_char_def is_binary32_def u Let_def)
  from insert_then_scan [OF h, of "0x400C000000000000"]
  obtain block bytes' where
    a: "pack_record [97] 1 0x400C000000000000 [98] = Inr block"
    and b: "insert_record_at (Some (replicate 43 0)) 1 [97] 1 0x400C000000000000 [98]
        = ([if (1::int) = int 1 + 1 then Appended else Inserted 1], Some bytes')"
    and c: "length bytes' = length (replicate 43 (0 :: byte)) + 43"
    and d: "scan_records bytes'
        = take (nat 1 - 1) (scan_records (replicate 43 0)) @ [decode_fields block]
          @ drop (nat 1 - 1) (scan_records (replicate 43 0))"
    and e: "scan_records bytes' ! (nat 1 - 1) = decode_fields block"
    and f: "fits_text 20 [97] \<and> \<not> ends_with_nul [97] \<and> fits_text 15 [98]
        \<and> \<not> ends_with_nul [98] \<and> is_binary32 0x400C000000000000 \<longrightarrow>
          scan_records bytes' ! (nat 1 - 1) = ([97], 1, 0x400C000000000000, [98])
          \<and> record_eq (scan_records bytes' ! (nat 1 - 1)) ([97], 1, 0x400C000000000000, [98])"
    by blast
  have "scan_records bytes' ! (nat 1 - 1) = ([97], 1, 0x400C000000000000, [98])"
    using f fit by blast
  then have dec: "decode_fields block = ([97], 1, 0x400C000000000000, [98])"
    unfolding e .
  have b': "insert_record_at (Some (replicate 43 0)) 1 [97] 1 0x400C000000000000 [98]
        = ([Inserted 1], Some bytes')"
    using b by simp
  have c': "length bytes' = 86" using c by simp
  have d': "scan_records bytes'
        = [([97], 1, 0x400C000000000000, [98])] @ scan_records (replicate 43 0)"
    using d by (simp add: dec)
  show ?thesis using a b' c' d' by blast
qed

section \<open>Deleting a record\<close>

lemma delete_file:
  assumes "length bytes = n * RECORD_SIZE" "1 \<le> p" "p \<le> int n"
  shows "delete_record (Some bytes) p
         = ([Deleted p],
            Some (take ((nat p - 1) * RECORD_SIZE) bytes @ drop (nat p * RECORD_SIZE) bytes))"
proof -
  have size: "length bytes mod RECORD_SIZE = 0" "length bytes div RECORD_SIZE = n"
    using assms(1) by (simp_all add: RECORD_SIZE_43)
  have p: "1 \<le> nat p" "nat p \<le> n" "n \<noteq> 0" using assms(2,3) by simp_all
  show ?thesis
    using assms(2,3) size p(3) delete_result [OF assms(1) p(1,2)]
    by (simp add: delete_record_def Let_def)
qed

text \<open>
  Claim C2: on a consistent store of \<open>n \<ge> 1\<close> records, deleting at a position \<open>p\<close>
  from 1 to \<open>n\<close> leaves a file of \<open>(n - 1) * 43\<close> bytes, 43 bytes shorter. The listing
  of the new file shows \<open>n - 1\<close> records at the positions 1 to \<open>n - 1\<close> and nothing
  else: the records of the old listing without the one at position \<open>p\<close>, in their old
  order.
\<close>

theorem delete_then_scan:
  assumes "length bytes = n * RECORD_SIZE" "1 \<le> p" "p \<le> int n"
  shows "\<exists>bytes'.
      delete_record (Some bytes) p = ([Deleted p], Some bytes')
    \<and> length bytes' = (n - 1) * 43
    \<and> length bytes' + 43 = length bytes
    \<and> print_db_from_file (Some bytes')
        = Header # map (\<lambda>(i, r). RecordLine i r) (zip [1..<n] (scan_records bytes'))
    \<and> length (scan_records bytes) = n
    \<and> length (scan_records bytes') = n - 1
    \<and> scan_records bytes'
        = take (nat p - 1) (scan_records bytes) @ drop (nat p) (scan_records bytes)
    \<and> (\<forall>q. 1 \<le> q \<and> q < nat p \<longrightarrow>
           scan_records bytes' ! (q - 1) = scan_records bytes ! (q - 1))
    \<and> (\<forall>q. nat p < q \<and> q \<le> n \<longrightarrow>
           scan_records bytes' ! (q - 2) = scan_records bytes ! (q - 1))"
proof -
  define j where "j = nat p - 1"
  have j: "j < n" "nat p = j + 1" using assms(2,3) by (simp_all add: j_def)
  define bytes' where
    "bytes' = take (j * RECORD_SIZE) bytes @ drop ((j + 1) * RECORD_SIZE) bytes"
  define rs where "rs = scan_records bytes"
  have e: "(j + 1) * RECORD_SIZE = nat p * RECORD_SIZE" using j(2) by simp
  have del: "delete_record (Some bytes) p = ([Deleted p], Some bytes')"
    unfolding bytes'_def e unfolding j_def by (rule delete_file [OF assms])
  have len': "length bytes' = (n - 1) * RECORD_SIZE"
    using assms(1) j(1) by (simp add: bytes'_def RECORD_SIZE_43 algebra_simps)
  then have l1: "length bytes' = (n - 1) * 43" by (simp add: RECORD_SIZE_43)
  have l2: "length bytes' + 43 = length bytes"
    using l1 assms(1) j(1) by (simp add: RECORD_SIZE_43 algebra_simps)
  have n1: "n - 1 + 1 = n" using j(1) by simp
  have pr: "print_db_from_file (Some bytes')
        = Header # map (\<lambda>(i, r). RecordLine i r) (zip [1..<n] (scan_records bytes'))"
    using print_db_numbered [OF len'] n1 by simp
  have lrs: "length rs = n"
    by (simp add: rs_def scan_records_consistent [OF assms(1)])
  have lrs': "length (scan_records bytes') = n - 1"
    by (simp add: scan_records_consistent [OF len'])
  have eq: "scan_records bytes' = take j rs @ drop (j + 1) rs"
    unfolding bytes'_def rs_def by (rule scan_records_deleted [OF assms(1) j(1)])
  have eq': "scan_records bytes' = take j rs @ drop (nat p) rs"
    using eq j(2) by simp
  have below: "\<forall>q. 1 \<le> q \<and> q < nat p \<longrightarrow> scan_records bytes' ! (q - 1) = rs ! (q - 1)"
    using j lrs by (auto simp: eq nth_append)
  have above: "\<forall>q. nat p < q \<and> q \<le> n \<longrightarrow> scan_records bytes' ! (q - 2) = rs ! (q - 1)"
  proof (intro allI impI)
    fix q
    assume q: "nat p < q \<and> q \<le> n"
    then have "\<not> q - 2 < j" "Suc (j + (q - 2 - j)) = q - 1" using j(2) by auto
    then show "scan_records bytes' ! (q - 2) = rs ! (q - 1)"
      using q j lrs by (simp add: eq nth_append)
  qed
  show ?thesis
    using del l1 l2 pr lrs lrs' eq' below above
    unfolding rs_def j_def by blast
qed

theorem delete_then_scan_witness:
  "\<exists>bytes'. delete_record (Some (replicate 86 0)) 1 = ([Deleted 1], Some bytes')
     \<and> length bytes' = 43
     \<and> scan_records bytes' = drop 1 (scan_records (replicate 86 0))"
proof -
  have h: "length (replicate 86 (0 :: byte)) = 2 * RECORD_SIZE" "(1 :: int) \<le> 1"
      "(1 :: int) \<le> int 2"
    by (simp_all add: RECORD_SIZE_43)
  show ?thesis
    using delete_then_scan [OF h] by simp blast
qed

end
